theory Spec2Isabelle
  imports Complex_Main "HOL-Library.Word"
begin

unbundle bit_operations_syntax

section \<open>The remote-debugging session manager of server.js\<close>

text \<open>
  A shallow embedding of the session manager in \<^verbatim>\<open>src/server.js\<close>: target discovery
  (\<^verbatim>\<open>discoverCDP\<close>, \<^verbatim>\<open>discoverAllTargets\<close>), the RPC transport and the execution-context
  handler of \<^verbatim>\<open>connectCDP\<close>, \<^verbatim>\<open>getCDPStatus\<close>, \<^verbatim>\<open>hashString\<close>, \<^verbatim>\<open>initCDP\<close>, the interval
  callback of \<^verbatim>\<open>startPolling\<close> and the \<^verbatim>\<open>POST /instance\<close> handler.

  JavaScript strings are modelled as \<^typ>\<open>string\<close> where only equality and substring tests
  matter, and as lists of UTF-16 code units where \<^verbatim>\<open>charCodeAt\<close> reads them. What an
  \<^verbatim>\<open>await\<close> yields is an \<open>outcome\<close>: the value the promise resolved with, or the
  error it rejected with.
\<close>

subsection \<open>JavaScript values shared by the components\<close>

text \<open>An \<^verbatim>\<open>Error\<close> object as the code reads it: only \<^verbatim>\<open>err.message\<close>, which may be undefined.\<close>

datatype js_error = JsError (message: "string option")

datatype 'a outcome = Resolved 'a | Rejected js_error

text \<open>\<^verbatim>\<open>s.includes(p)\<close>: \<open>p\<close> occurs in \<open>s\<close> as a contiguous substring.\<close>

fun js_includes :: "string \<Rightarrow> string \<Rightarrow> bool" where
  "js_includes [] p = (p = [])"
| "js_includes (c # cs) p = (take (length p) (c # cs) = p \<or> js_includes cs p)"

subsection \<open>Execution contexts and the messages of the debugging protocol\<close>

text \<open>
  \<^verbatim>\<open>{id, name, origin}\<close> as \<^verbatim>\<open>Runtime.executionContextCreated\<close> delivers it in
  \<^verbatim>\<open>params.context\<close>.
\<close>

record exec_context =
  ctx_id :: int
  ctx_name :: string
  ctx_origin :: string

text \<open>The error object of a failed call, \<^verbatim>\<open>{code, message}\<close>; as an object it is truthy.\<close>

record rpc_error =
  err_code :: int
  err_message :: string

text \<open>
  A parsed frame (\<^verbatim>\<open>JSON.parse(msg)\<close>) as the two \<^verbatim>\<open>'message'\<close> listeners of
  \<^verbatim>\<open>connectCDP\<close> distinguish it. A call response is \<^verbatim>\<open>{id, result}\<close> or \<^verbatim>\<open>{id, error}\<close>;
  the three context events are \<^verbatim>\<open>{method, params}\<close> with the method names
  \<^verbatim>\<open>Runtime.executionContextCreated\<close> (carrying \<^verbatim>\<open>params.context\<close>),
  \<^verbatim>\<open>Runtime.executionContextDestroyed\<close> (carrying \<^verbatim>\<open>params.executionContextId\<close>) and
  \<^verbatim>\<open>Runtime.executionContextsCleared\<close>. \<open>OtherEvent m\<close> is a frame with any other method
  name \<open>m\<close> and no \<^verbatim>\<open>id\<close>. The result of a call is kept as its JSON text.
\<close>

datatype cdp_message =
    CallResponse nat "rpc_error + string"
  | ExecutionContextCreated exec_context
  | ExecutionContextDestroyed int
  | ExecutionContextsCleared
  | OtherEvent string

subsection \<open>The execution-context handler of connectCDP\<close>

text \<open>
  \<^verbatim>\<open>
  let contexts = [];
  ws.on('message', (msg) => {
      try {
          const data = JSON.parse(msg);
          if (data.method === 'Runtime.executionContextCreated') {
              const ctx = data.params.context;
              if (!contexts.find(c => c.id === ctx.id)) { contexts.push(ctx); }
          } else if (data.method === 'Runtime.executionContextDestroyed') {
              const id = data.params.executionContextId;
              contexts = contexts.filter(c => c.id !== id);
          } else if (data.method === 'Runtime.executionContextsCleared') {
              contexts = [];
          }
      } catch (e) { }
  });
  \<close>
  The array is a list; \<^verbatim>\<open>find\<close> returning undefined is \<^const>\<open>None\<close>, \<^verbatim>\<open>push\<close> appends.
\<close>

fun on_context_message :: "exec_context list \<Rightarrow> cdp_message \<Rightarrow> exec_context list" where
  "on_context_message contexts (ExecutionContextCreated ctx) =
     (if find (\<lambda>c. ctx_id c = ctx_id ctx) contexts = None then contexts @ [ctx] else contexts)"
| "on_context_message contexts (ExecutionContextDestroyed i) =
     filter (\<lambda>c. ctx_id c \<noteq> i) contexts"
| "on_context_message contexts ExecutionContextsCleared = []"
| "on_context_message contexts (CallResponse i r) = contexts"
| "on_context_message contexts (OtherEvent m) = contexts"

text \<open>The handler applied to the frames in the order of their receipt.\<close>

definition replay_contexts :: "exec_context list \<Rightarrow> cdp_message list \<Rightarrow> exec_context list" where
  "replay_contexts contexts msgs = foldl on_context_message contexts msgs"

text \<open>
  The registry as the specification words it, on sets: a cleared event empties the set,
  a destroyed event removes exactly the context with the matching id, a created event
  adds the context unless one with the same id is present, any other event changes
  nothing.
\<close>

fun spec_registry_rule :: "exec_context set \<Rightarrow> cdp_message \<Rightarrow> exec_context set" where
  "spec_registry_rule S ExecutionContextsCleared = {}"
| "spec_registry_rule S (ExecutionContextDestroyed i) = {c \<in> S. ctx_id c \<noteq> i}"
| "spec_registry_rule S (ExecutionContextCreated ctx) =
     (if \<exists>c \<in> S. ctx_id c = ctx_id ctx then S else insert ctx S)"
| "spec_registry_rule S (CallResponse i r) = S"
| "spec_registry_rule S (OtherEvent m) = S"

subsection \<open>Target discovery\<close>

text \<open>\<^verbatim>\<open>const PORTS = [9000, 9001, 9222, 9002, 9003]; // Prioritize 9000/9001\<close>\<close>

definition PORTS :: "nat list" where
  "PORTS = [9000, 9001, 9222, 9002, 9003]"

text \<open>
  An entry of the endpoint's \<^verbatim>\<open>/json/list\<close> answer. The code reads \<^verbatim>\<open>title\<close>, \<^verbatim>\<open>url\<close> and
  \<^verbatim>\<open>webSocketDebuggerUrl\<close> only through truthiness and substring tests, which an absent
  field and an empty string answer alike, so an absent field is the empty string here.
  \<^verbatim>\<open>id\<close> and \<^verbatim>\<open>type\<close> are always present in the protocol's answer.
\<close>

record cdp_target =
  t_id :: string
  t_type :: string
  t_title :: string
  t_url :: string
  t_webSocketDebuggerUrl :: string

text \<open>
  The test both probes share:
  \<^verbatim>\<open>(t.url?.includes('workbench.html') || (t.title && t.title.includes('Antigravity')))
  && t.type !== 'worker'\<close>
\<close>

definition is_workbench_page :: "cdp_target \<Rightarrow> bool" where
  "is_workbench_page t =
     ((js_includes (t_url t) ''workbench.html''
        \<or> (t_title t \<noteq> [] \<and> js_includes (t_title t) ''Antigravity''))
      \<and> t_type t \<noteq> ''worker'')"

text \<open>
  \<^verbatim>\<open>Promise.all(PORTS.map(checkPort))\<close>. The probes run concurrently; promise \<open>i\<close>
  settles at the moment \<open>settle_time i\<close> and its value is stored in slot \<open>i\<close> of the
  result array at that moment, so the slots are filled in the order of the settle times.
  Every probe settles (\<^verbatim>\<open>getJson\<close> has a 2 s timeout and \<^verbatim>\<open>checkPort\<close> catches every
  error), and the array is delivered once all slots are filled.
\<close>

definition promise_all :: "(nat \<Rightarrow> nat) \<Rightarrow> 'a list \<Rightarrow> 'a list" where
  "promise_all settle_time vals =
     List.map_filter id
       (foldl (\<lambda>slots i. slots[i := Some (vals ! i)])
          (replicate (length vals) None)
          (sort_key settle_time [0..<length vals]))"

text \<open>
  \<^verbatim>\<open>getJson\<close> is what the port answers: the parsed target list, or a rejection
  (connection refused, the 2 s timeout, an answer that does not parse). An answer that
  is not an array of targets raises inside the \<^verbatim>\<open>try\<close> below, which is the rejected case
  as well. What \<^verbatim>\<open>discoverCDP\<close>'s \<^verbatim>\<open>checkPort\<close> resolves with,
  \<^verbatim>\<open>{port, url, title, id}\<close> or null:
  \<^verbatim>\<open>
  try {
      const list = await getJson(`http://127.0.0.1:${port}/json/list`);
      const found = list.find(t => ... );
      if (found && found.webSocketDebuggerUrl) {
          return { port, url: found.webSocketDebuggerUrl, title: found.title, id: found.id };
      }
  } catch (e) { }
  return null;
  \<close>
\<close>

record port_match =
  m_port :: nat
  m_url :: string
  m_title :: string
  m_id :: string

definition checkPort :: "(nat \<Rightarrow> cdp_target list outcome) \<Rightarrow> nat \<Rightarrow> port_match option" where
  "checkPort getJson port =
     (case getJson port of
        Rejected e \<Rightarrow> None
      | Resolved list \<Rightarrow>
          (case find is_workbench_page list of
             None \<Rightarrow> None
           | Some found \<Rightarrow>
               if t_webSocketDebuggerUrl found \<noteq> []
               then Some \<lparr>m_port = port, m_url = t_webSocketDebuggerUrl found,
                          m_title = t_title found, m_id = t_id found\<rparr>
               else None))"

text \<open>What \<^verbatim>\<open>discoverCDP\<close> returns: \<^verbatim>\<open>{ port: match.port, url: match.url, id: match.id }\<close>.\<close>

record cdp_info =
  info_port :: nat
  info_url :: string
  info_id :: string

text \<open>The error \<^verbatim>\<open>discoverCDP\<close> throws when no port has a match.\<close>

definition NoTargetFound :: js_error where
  "NoTargetFound =
     JsError (Some ''CDP not found. Ensure Antigravity is running with remote debugging enabled.'')"

text \<open>
  \<^verbatim>\<open>
  const results = await Promise.all(PORTS.map(checkPort));
  const match = results.find(r => r !== null);
  if (match) { return { port: match.port, url: match.url, id: match.id }; }
  throw new Error('CDP not found. ...');
  \<close>
\<close>

definition discoverCDP :: "(nat \<Rightarrow> nat) \<Rightarrow> (nat \<Rightarrow> cdp_target list outcome) \<Rightarrow> cdp_info outcome" where
  "discoverCDP settle_time getJson =
     (let results = promise_all settle_time (map (checkPort getJson) PORTS)
      in case find (\<lambda>r. r \<noteq> None) results of
           Some (Some match) \<Rightarrow>
             Resolved \<lparr>info_port = m_port match, info_url = m_url match, info_id = m_id match\<rparr>
         | _ \<Rightarrow> Rejected NoTargetFound)"

text \<open>
  An element of \<^verbatim>\<open>discoverAllTargets\<close>' result:
  \<^verbatim>\<open>{ id: t.id, port, url: t.webSocketDebuggerUrl,
    title: t.title || `Target ${t.id.substring(0, 8)}`, pageUrl: t.url }\<close>
\<close>

record cdp_instance =
  i_id :: string
  i_port :: nat
  i_url :: string
  i_title :: string
  i_pageUrl :: string

definition to_instance :: "nat \<Rightarrow> cdp_target \<Rightarrow> cdp_instance" where
  "to_instance port t =
     \<lparr>i_id = t_id t, i_port = port, i_url = t_webSocketDebuggerUrl t,
      i_title = (if t_title t \<noteq> [] then t_title t else ''Target '' @ take 8 (t_id t)),
      i_pageUrl = t_url t\<rparr>"

text \<open>
  \<^verbatim>\<open>discoverAllTargets\<close>' \<^verbatim>\<open>checkPort\<close>: the filtered and mapped list, or \<^verbatim>\<open>[]\<close> on any error.
\<close>

definition checkPortAll :: "(nat \<Rightarrow> cdp_target list outcome) \<Rightarrow> nat \<Rightarrow> cdp_instance list" where
  "checkPortAll getJson port =
     (case getJson port of
        Rejected e \<Rightarrow> []
      | Resolved list \<Rightarrow>
          map (to_instance port)
            (filter (\<lambda>t. is_workbench_page t \<and> t_webSocketDebuggerUrl t \<noteq> []) list))"

text \<open>
  \<^verbatim>\<open>
  if (!seen.has(t.url)) { seen.add(t.url); allTargets.push(t); }
  \<close>
  on the pair of \<^verbatim>\<open>seen\<close> and \<^verbatim>\<open>allTargets\<close>.
\<close>

definition add_target :: "string set \<times> cdp_instance list \<Rightarrow> cdp_instance \<Rightarrow> string set \<times> cdp_instance list" where
  "add_target acc t =
     (case acc of (seen, allTargets) \<Rightarrow>
        if i_url t \<notin> seen then (insert (i_url t) seen, allTargets @ [t])
        else (seen, allTargets))"

text \<open>
  \<^verbatim>\<open>
  const results = await Promise.all(PORTS.map(checkPort));
  for (const portTargets of results) { for (const t of portTargets) { ... } }
  return allTargets;
  \<close>
\<close>

definition discoverAllTargets :: "(nat \<Rightarrow> nat) \<Rightarrow> (nat \<Rightarrow> cdp_target list outcome) \<Rightarrow> cdp_instance list" where
  "discoverAllTargets settle_time getJson =
     (let results = promise_all settle_time (map (checkPortAll getJson) PORTS)
      in snd (foldl (\<lambda>acc portTargets. foldl add_target acc portTargets) ({}, []) results))"

subsection \<open>The RPC transport of connectCDP\<close>

text \<open>
  \<^verbatim>\<open>
  let idCounter = 1;
  const call = (method, params, timeout = 10000) => new Promise((resolve, reject) => {
      const id = idCounter++;
      let timeoutId;
      const handler = (msg) => {
          const data = JSON.parse(msg);
          if (data.id === id) {
              clearTimeout(timeoutId);
              ws.off('message', handler);
              if (data.error) reject(data.error);
              else resolve(data.result);
          }
      };
      timeoutId = setTimeout(() => {
          ws.off('message', handler);
          reject(new Error(`CDP call timeout: ${method}`));
      }, timeout);
      ws.on('message', handler);
      ws.send(JSON.stringify({ id, method, params }));
  });
  \<close>
  The state of the transport: the counter, the \<^verbatim>\<open>handler\<close> closures registered as
  \<^verbatim>\<open>'message'\<close> listeners (each named by the \<^verbatim>\<open>id\<close> it closes over), the armed timers
  (each with the \<^verbatim>\<open>id\<close> and \<^verbatim>\<open>method\<close> of its call), the frames sent, and a log of every
  invocation of a call's \<^verbatim>\<open>resolve\<close> or \<^verbatim>\<open>reject\<close>, in order. The socket is open when
  \<^verbatim>\<open>call\<close> is used, where \<^verbatim>\<open>ws.send\<close> queues the frame and returns.
\<close>

datatype settlement =
    Fulfilled string
  | RpcFailed rpc_error
  | TimedOut string

record rpc_transport =
  idCounter :: nat
  handlers :: "nat list"
  timers :: "(nat \<times> string) list"
  sent :: "(nat \<times> string) list"
  settle_log :: "(nat \<times> settlement) list"

definition new_transport :: rpc_transport where
  "new_transport = \<lparr>idCounter = 1, handlers = [], timers = [], sent = [], settle_log = []\<rparr>"

text \<open>The executor of the promise; the value returned is the \<^verbatim>\<open>id\<close> that names the call.\<close>

definition call :: "string \<Rightarrow> rpc_transport \<Rightarrow> nat \<times> rpc_transport" where
  "call method t =
     (let i = idCounter t
      in (i, t\<lparr>idCounter := i + 1,
               timers := timers t @ [(i, method)],
               handlers := handlers t @ [i],
               sent := sent t @ [(i, method)]\<rparr>))"

text \<open>The body of the \<^verbatim>\<open>handler\<close> that closes over \<open>i\<close>, run on one frame.\<close>

fun handler :: "nat \<Rightarrow> cdp_message \<Rightarrow> rpc_transport \<Rightarrow> rpc_transport" where
  "handler i (CallResponse j r) t =
     (if j = i
      then t\<lparr>timers := filter (\<lambda>(k, m). k \<noteq> i) (timers t),
             handlers := filter (\<lambda>k. k \<noteq> i) (handlers t),
             settle_log := settle_log t @
               [(i, case r of Inl e \<Rightarrow> RpcFailed e | Inr v \<Rightarrow> Fulfilled v)]\<rparr>
      else t)"
| "handler i msg t = t"

text \<open>
  The socket emits \<^verbatim>\<open>'message'\<close>: every listener registered at that moment is called
  with the frame, in the order of registration.
\<close>

definition on_frame :: "cdp_message \<Rightarrow> rpc_transport \<Rightarrow> rpc_transport" where
  "on_frame msg t = foldl (\<lambda>t' i. handler i msg t') t (handlers t)"

text \<open>
  The timer of call \<open>i\<close> elapses. A timer that \<^verbatim>\<open>clearTimeout\<close> has cancelled, or that has
  fired before, does not run.
\<close>

definition on_timeout :: "nat \<Rightarrow> rpc_transport \<Rightarrow> rpc_transport" where
  "on_timeout i t =
     (case map_of (timers t) i of
        None \<Rightarrow> t
      | Some method \<Rightarrow>
          t\<lparr>timers := filter (\<lambda>(k, m). k \<noteq> i) (timers t),
            handlers := filter (\<lambda>k. k \<noteq> i) (handlers t),
            settle_log := settle_log t @ [(i, TimedOut method)]\<rparr>)"

text \<open>What happens to a transport, one event at a time.\<close>

datatype transport_event = Call string | Frame cdp_message | TimerElapsed nat

fun transport_step :: "rpc_transport \<Rightarrow> transport_event \<Rightarrow> rpc_transport" where
  "transport_step t (Call method) = snd (call method t)"
| "transport_step t (Frame msg) = on_frame msg t"
| "transport_step t (TimerElapsed i) = on_timeout i t"

definition run_transport :: "transport_event list \<Rightarrow> rpc_transport" where
  "run_transport evs = foldl transport_step new_transport evs"

text \<open>A call is pending while its handler is registered; it has settled once it is in the log.\<close>

definition pending :: "rpc_transport \<Rightarrow> nat \<Rightarrow> bool" where
  "pending t i = (i \<in> set (handlers t))"

definition settlements :: "rpc_transport \<Rightarrow> nat \<Rightarrow> settlement list" where
  "settlements t i = map snd (filter (\<lambda>(k, r). k = i) (settle_log t))"

text \<open>
  The bookkeeping that every reachable transport satisfies: no handler and no timer is
  registered twice, a call has its handler registered exactly when its timer is armed,
  every armed timer belongs to a frame that was sent, and the ids issued so far
  (\<open>1\<close> up to the counter) are split between the calls still registered and the calls
  in the log.
\<close>

definition transport_inv :: "rpc_transport \<Rightarrow> bool" where
  "transport_inv t =
     (distinct (handlers t) \<and> distinct (map fst (timers t)) \<and> distinct (map fst (settle_log t))
      \<and> set (handlers t) = fst ` set (timers t)
      \<and> set (timers t) \<subseteq> set (sent t)
      \<and> set (handlers t) \<inter> fst ` set (settle_log t) = {}
      \<and> set (handlers t) \<union> fst ` set (settle_log t) = {1..<idCounter t}
      \<and> 1 \<le> idCounter t)"

subsection \<open>Concrete answers of the endpoints\<close>

text \<open>
  Port 9001 lists a worker and a page titled for the application, port 9002 lists the
  workbench page, every other port refuses the connection.
\<close>

definition ex_getJson :: "nat \<Rightarrow> cdp_target list outcome" where
  "ex_getJson port =
     (if port = 9001 then Resolved
        [\<lparr>t_id = ''W1'', t_type = ''worker'', t_title = ''Antigravity'', t_url = ''x'',
          t_webSocketDebuggerUrl = ''ws://127.0.0.1:9001/devtools/page/W1''\<rparr>,
         \<lparr>t_id = ''A1'', t_type = ''page'', t_title = ''proj - Antigravity'', t_url = ''x'',
          t_webSocketDebuggerUrl = ''ws://127.0.0.1:9001/devtools/page/A1''\<rparr>]
      else if port = 9002 then Resolved
        [\<lparr>t_id = ''B1'', t_type = ''page'', t_title = ''t'', t_url = ''vscode-file://a/workbench.html'',
          t_webSocketDebuggerUrl = ''ws://127.0.0.1:9002/devtools/page/B1''\<rparr>]
      else Rejected (JsError (Some ''connect ECONNREFUSED'')))"

subsection \<open>The fingerprint of a capture\<close>

text \<open>
  \<^verbatim>\<open>
  function hashString(str) {
      let hash = 0;
      for (let i = 0; i < str.length; i++) {
          const char = str.charCodeAt(i);
          hash = ((hash << 5) - hash) + char;
          hash = hash & hash;
      }
      return hash.toString(36);
  }
  \<close>
  The string is the list of its UTF-16 code units. \<^verbatim>\<open>hash << 5\<close> is a 32-bit shift;
  the subtraction and the addition are exact in double precision (their operands stay
  below \<open>2 ^ 37\<close> in magnitude), and \<^verbatim>\<open>hash & hash\<close> converts the sum back to a signed
  32-bit integer, so after each round \<^verbatim>\<open>hash\<close> is the 32-bit word computed here, read
  as a signed number.
\<close>

fun hashString_loop :: "32 word \<Rightarrow> 16 word list \<Rightarrow> 32 word" where
  "hashString_loop hash [] = hash"
| "hashString_loop hash (char # str) =
     (let hash1 = (push_bit 5 hash - hash) + ucast char
      in hashString_loop (hash1 AND hash1) str)"

text \<open>\<^verbatim>\<open>Number.prototype.toString(36)\<close> on an integer: a minus sign, then the digits.\<close>

definition digit36 :: "nat \<Rightarrow> char" where
  "digit36 d = ''0123456789abcdefghijklmnopqrstuvwxyz'' ! d"

function radix36 :: "nat \<Rightarrow> string" where
  "radix36 n = (if n < 36 then [digit36 n] else radix36 (n div 36) @ [digit36 (n mod 36)])"
  by pat_completeness auto
termination
  by (relation "measure (\<lambda>n. n)") auto

definition toString36 :: "int \<Rightarrow> string" where
  "toString36 n = (if n < 0 then CHR ''-'' # radix36 (nat (- n)) else radix36 (nat n))"

definition hashString :: "16 word list \<Rightarrow> string" where
  "hashString str = toString36 (sint (hashString_loop 0 str))"

subsection \<open>The shared state of the server\<close>

text \<open>
  The payload of a successful capture, as the capture script builds it:
  \<^verbatim>\<open>{ html, css, backgroundColor, color, fontFamily }\<close>.
\<close>

record snapshot =
  html :: "16 word list"
  css :: string
  backgroundColor :: string
  color :: string
  fontFamily :: string

text \<open>
  What \<^verbatim>\<open>await captureSnapshot(cdpConnection)\<close> yields to the polling loop: null, an
  object with a truthy \<^verbatim>\<open>error\<close>, or a payload.
\<close>

datatype capture_result = NullSnapshot | ErrorSnapshot string | Snapshot snapshot

text \<open>
  The object \<^verbatim>\<open>connectCDP\<close> returns, \<^verbatim>\<open>{ ws, call, getContexts }\<close>: the socket is named by
  the URL it was opened on, and \<open>getContexts\<close> is the array \<^verbatim>\<open>getContexts()\<close> returns.
\<close>

record cdp_connection =
  ws :: string
  getContexts :: "exec_context list"

text \<open>
  The module-level variables: \<^verbatim>\<open>cdpConnection\<close>, \<^verbatim>\<open>lastSnapshot\<close>, \<^verbatim>\<open>lastSnapshotHash\<close>,
  \<^verbatim>\<open>discoveredInstances\<close>, \<^verbatim>\<open>activeTargetId\<close>, \<^verbatim>\<open>cdpRetryCount\<close>, \<^verbatim>\<open>snapshotFailCount\<close>;
  \<^verbatim>\<open>null\<close> is \<^const>\<open>None\<close>.
\<close>

record server_state =
  cdpConnection :: "cdp_connection option"
  lastSnapshot :: "snapshot option"
  lastSnapshotHash :: "string option"
  discoveredInstances :: "cdp_instance list"
  activeTargetId :: "string option"
  cdpRetryCount :: nat
  snapshotFailCount :: nat

definition MAX_CDP_RETRIES :: nat where
  "MAX_CDP_RETRIES = 60"

definition MAX_SNAPSHOT_FAILS :: nat where
  "MAX_SNAPSHOT_FAILS = 5"

text \<open>The values the variables are declared with.\<close>

definition initial_state :: server_state where
  "initial_state =
     \<lparr>cdpConnection = None, lastSnapshot = None, lastSnapshotHash = None,
      discoveredInstances = [], activeTargetId = None, cdpRetryCount = 0,
      snapshotFailCount = 0\<rparr>"

text \<open>
  \<^verbatim>\<open>
  function getCDPStatus() {
      return {
          connected: !!cdpConnection,
          contextCount: cdpConnection?.getContexts().length || 0,
          retryCount: cdpRetryCount
      };
  }
  \<close>
\<close>

record cdp_status =
  connected :: bool
  contextCount :: nat
  retryCount :: nat

definition getCDPStatus :: "server_state \<Rightarrow> cdp_status" where
  "getCDPStatus s =
     \<lparr>connected = (cdpConnection s \<noteq> None),
      contextCount = (case cdpConnection s of None \<Rightarrow> 0 | Some cdp \<Rightarrow> length (getContexts cdp)),
      retryCount = cdpRetryCount s\<rparr>"

subsection \<open>connectCDP\<close>

text \<open>
  What the target does while \<^verbatim>\<open>connectCDP(url)\<close> runs: whether the socket opens
  (\<^verbatim>\<open>'open'\<close> or \<^verbatim>\<open>'error'\<close>), what the first \<^verbatim>\<open>Runtime.enable\<close> call settles with, and
  the frames that arrive before the function returns (the \<^verbatim>\<open>disable\<close>/\<^verbatim>\<open>enable\<close> cycle is
  inside a \<^verbatim>\<open>try\<close> with an empty \<^verbatim>\<open>catch\<close>, and the wait for a first context, at most ten
  rounds of 500 ms, only decides how many frames that is).
\<close>

record connect_env =
  ws_open :: "unit outcome"
  runtime_enable :: "string outcome"
  init_frames :: "cdp_message list"

definition connectCDP :: "connect_env \<Rightarrow> string \<Rightarrow> cdp_connection outcome" where
  "connectCDP env url =
     (case ws_open env of
        Rejected err \<Rightarrow> Rejected err
      | Resolved u \<Rightarrow>
          (case runtime_enable env of
             Rejected err \<Rightarrow> Rejected err
           | Resolved r \<Rightarrow>
               Resolved \<lparr>ws = url, getContexts = replay_contexts [] (init_frames env)\<rparr>))"

subsection \<open>captureSnapshot\<close>

text \<open>
  The value of the probe expression, \<^verbatim>\<open>probeResult.result.value\<close>, as far as the score
  reads it.
\<close>

record probe_info =
  messageCount :: nat
  hasConversation :: bool
  hasCascade :: bool
  hasLexical :: bool
  isAgentManager :: bool
  htmlLength :: nat
  protocol :: string

text \<open>
  What the two \<^verbatim>\<open>cdp.call("Runtime.evaluate", ...)\<close> of one context settle with, by
  context id. For the probe, \<^const>\<open>None\<close> is a result without a truthy
  \<^verbatim>\<open>result.value\<close>; for the capture script, \<^const>\<open>NullSnapshot\<close> is a result without a
  truthy \<^verbatim>\<open>result.value\<close> and \<^const>\<open>ErrorSnapshot\<close> one whose value has a truthy
  \<^verbatim>\<open>error\<close>.
\<close>

record capture_rpc =
  probe_call :: "int \<Rightarrow> probe_info option outcome"
  snap_call :: "int \<Rightarrow> capture_result outcome"

text \<open>
  \<^verbatim>\<open>
  let score = (info.messageCount * 20000);
  if (info.hasLexical) score += 10000;
  if (info.hasConversation || info.hasCascade) { score += 50000; score *= 10; }
  if (info.isAgentManager) score -= 1000000;
  if (info.protocol === 'vscode-webview:') score += 10000;
  score += info.htmlLength / 1000;
  \<close>
  as a rational number (the rounding of the last division in double precision is not
  modelled).
\<close>

definition score_of :: "probe_info \<Rightarrow> rat" where
  "score_of info =
     (let score = of_nat (messageCount info) * 20000;
          score = (if hasLexical info then score + 10000 else score);
          score = (if hasConversation info \<or> hasCascade info then (score + 50000) * 10 else score);
          score = (if isAgentManager info then score - 1000000 else score);
          score = (if protocol info = ''vscode-webview:'' then score + 10000 else score)
      in score + of_nat (htmlLength info) / 1000)"

text \<open>
  One round of the loop over the contexts, on the pair of \<^verbatim>\<open>bestSnapshot\<close> and
  \<^verbatim>\<open>maxScore\<close>. The body is inside \<^verbatim>\<open>try { ... } catch (e) { console.log(...) }\<close>: a call
  that rejects ends the round and the loop goes on with the next context.
\<close>

definition capture_context ::
  "capture_rpc \<Rightarrow> snapshot option \<times> rat \<Rightarrow> exec_context \<Rightarrow> snapshot option \<times> rat" where
  "capture_context rpc acc ctx =
     (case acc of (bestSnapshot, maxScore) \<Rightarrow>
        (case probe_call rpc (ctx_id ctx) of
           Rejected e \<Rightarrow> acc
         | Resolved None \<Rightarrow> acc
         | Resolved (Some info) \<Rightarrow>
             (case snap_call rpc (ctx_id ctx) of
                Rejected e \<Rightarrow> acc
              | Resolved NullSnapshot \<Rightarrow> acc
              | Resolved (ErrorSnapshot err) \<Rightarrow> acc
              | Resolved (Snapshot snap) \<Rightarrow>
                  if score_of info > maxScore then (Some snap, score_of info) else acc)))"

text \<open>
  \<^verbatim>\<open>
  const contexts = cdp.getContexts();
  let bestSnapshot = null;
  let maxScore = -1;
  for (const ctx of contexts) { try { ... } catch (e) { ... } }
  return bestSnapshot;
  \<close>
  Nothing outside the \<^verbatim>\<open>try\<close> can raise, so the promise always resolves.
\<close>

definition captureSnapshot :: "capture_rpc \<Rightarrow> cdp_connection \<Rightarrow> capture_result outcome" where
  "captureSnapshot rpc cdp =
     (case fst (foldl (capture_context rpc) (None, - 1) (getContexts cdp)) of
        None \<Rightarrow> Resolved NullSnapshot
      | Some snap \<Rightarrow> Resolved (Snapshot snap))"

subsection \<open>What the server does to the outside\<close>

text \<open>
  A client socket of \<^verbatim>\<open>wss.clients\<close>, and the event the polling loop sends:
  \<^verbatim>\<open>{ type: 'snapshot_update', timestamp: new Date().toISOString() }\<close>.
\<close>

datatype ready_state = CONNECTING | OPEN | CLOSING | CLOSED

record ws_client =
  client_id :: nat
  readyState :: ready_state

record update_message =
  msg_type :: string
  timestamp :: string

text \<open>
  The observable actions, in the order they happen: one round of
  \<^verbatim>\<open>wss.clients.forEach\<close> with the message and the clients it was sent to,
  \<^verbatim>\<open>cdpConnection.ws.close()\<close>, and \<^verbatim>\<open>new WebSocket(url)\<close>.
\<close>

datatype effect =
    Broadcast update_message "nat list"
  | WsClose string
  | WsOpen string

subsection \<open>initCDP\<close>

text \<open>
  What the network answers during one round of the retry loop: the two discovery scans
  and the connection.
\<close>

record attempt_env =
  scan_time :: "nat \<Rightarrow> nat"
  scan_json :: "nat \<Rightarrow> cdp_target list outcome"
  connect :: "string \<Rightarrow> connect_env"
  rescan_time :: "nat \<Rightarrow> nat"
  rescan_json :: "nat \<Rightarrow> cdp_target list outcome"

text \<open>
  \<^verbatim>\<open>
  while (cdpRetryCount < MAX_CDP_RETRIES) {
      try {
          const cdpInfo = await discoverCDP();
          cdpConnection = await connectCDP(cdpInfo.url);
          activeTargetId = cdpInfo.id || null;
          try { discoveredInstances = await discoverAllTargets(); } catch (e) { }
          cdpRetryCount = 0; snapshotFailCount = 0;
          return true;
      } catch (err) {
          cdpRetryCount++;
          await new Promise(r => setTimeout(r, 5000));
      }
  }
  return false;
  \<close>
  Round \<open>k\<close> of the loop gets the answers \<open>env k\<close>.
\<close>

function initCDP ::
  "(nat \<Rightarrow> attempt_env) \<Rightarrow> nat \<Rightarrow> server_state \<Rightarrow> effect list \<Rightarrow> bool \<times> server_state \<times> effect list" where
  "initCDP env k s out =
     (if cdpRetryCount s < MAX_CDP_RETRIES
      then (case discoverCDP (scan_time (env k)) (scan_json (env k)) of
              Rejected err \<Rightarrow> initCDP env (k + 1) (s\<lparr>cdpRetryCount := cdpRetryCount s + 1\<rparr>) out
            | Resolved cdpInfo \<Rightarrow>
                (case connectCDP (connect (env k) (info_url cdpInfo)) (info_url cdpInfo) of
                   Rejected err \<Rightarrow>
                     initCDP env (k + 1) (s\<lparr>cdpRetryCount := cdpRetryCount s + 1\<rparr>)
                       (out @ [WsOpen (info_url cdpInfo)])
                 | Resolved cdp \<Rightarrow>
                     (True,
                      s\<lparr>cdpConnection := Some cdp,
                        activeTargetId := (if info_id cdpInfo \<noteq> [] then Some (info_id cdpInfo) else None),
                        discoveredInstances :=
                          discoverAllTargets (rescan_time (env k)) (rescan_json (env k)),
                        cdpRetryCount := 0,
                        snapshotFailCount := 0\<rparr>,
                      out @ [WsOpen (info_url cdpInfo)])))
      else (False, s, out))"
  by pat_completeness auto
termination
  by (relation "measure (\<lambda>(env, k, s, out). MAX_CDP_RETRIES - cdpRetryCount s)") auto

subsection \<open>The interval callback of startPolling\<close>

text \<open>
  What one tick meets: what \<^verbatim>\<open>await captureSnapshot(cdpConnection)\<close> yields for the
  connection, the client sockets and the clock at that moment, and the answers of the
  network should the tick reconnect.
\<close>

record tick_env =
  capture :: "cdp_connection \<Rightarrow> capture_result outcome"
  clients :: "ws_client list"
  now :: string
  reconnect :: "nat \<Rightarrow> attempt_env"

text \<open>
  \<^verbatim>\<open>
  wss.clients.forEach(client => {
      if (client.readyState === WebSocket.OPEN) {
          client.send(JSON.stringify({ type: 'snapshot_update',
                                       timestamp: new Date().toISOString() }));
      }
  });
  \<close>
\<close>

definition broadcast_update :: "ws_client list \<Rightarrow> string \<Rightarrow> effect" where
  "broadcast_update cs t =
     Broadcast \<lparr>msg_type = ''snapshot_update'', timestamp = t\<rparr>
       (map client_id (filter (\<lambda>client. readyState client = OPEN) cs))"

text \<open>
  The \<^verbatim>\<open>try\<close> block after the \<^verbatim>\<open>await\<close> has yielded \<open>snapshot\<close>:
  \<^verbatim>\<open>
  if (!snapshot) { snapshotFailCount++; }
  else if (snapshot.error) { snapshotFailCount++; }
  else {
      snapshotFailCount = 0;
      const hash = hashString(snapshot.html);
      if (hash !== lastSnapshotHash) {
          lastSnapshot = snapshot; lastSnapshotHash = hash;
          wss.clients.forEach(...);
      }
  }
  if (snapshotFailCount >= MAX_SNAPSHOT_FAILS) { cdpConnection = null; snapshotFailCount = 0; }
  \<close>
\<close>

definition poll_try ::
  "capture_result \<Rightarrow> ws_client list \<Rightarrow> string \<Rightarrow> server_state \<Rightarrow> server_state \<times> effect list" where
  "poll_try snapshot cs t s =
     (let (s1, out) =
        (case snapshot of
           NullSnapshot \<Rightarrow> (s\<lparr>snapshotFailCount := snapshotFailCount s + 1\<rparr>, [])
         | ErrorSnapshot err \<Rightarrow> (s\<lparr>snapshotFailCount := snapshotFailCount s + 1\<rparr>, [])
         | Snapshot snap \<Rightarrow>
             (let s0 = s\<lparr>snapshotFailCount := 0\<rparr>;
                  hash = hashString (html snap)
              in if Some hash \<noteq> lastSnapshotHash s0
                 then (s0\<lparr>lastSnapshot := Some snap, lastSnapshotHash := Some hash\<rparr>,
                       [broadcast_update cs t])
                 else (s0, [])))
      in if snapshotFailCount s1 \<ge> MAX_SNAPSHOT_FAILS
         then (s1\<lparr>cdpConnection := None, snapshotFailCount := 0\<rparr>, out)
         else (s1, out))"

text \<open>
  The \<^verbatim>\<open>catch\<close> clause:
  \<^verbatim>\<open>
  snapshotFailCount++;
  if (err.message?.includes('WebSocket') || err.message?.includes('close')) {
      cdpConnection = null;
  }
  \<close>
\<close>

definition poll_catch :: "js_error \<Rightarrow> server_state \<Rightarrow> server_state" where
  "poll_catch err s =
     (let s1 = s\<lparr>snapshotFailCount := snapshotFailCount s + 1\<rparr>
      in if (case message err of
               None \<Rightarrow> False
             | Some m \<Rightarrow> js_includes m ''WebSocket'' \<or> js_includes m ''close'')
         then s1\<lparr>cdpConnection := None\<rparr>
         else s1)"

text \<open>
  The code of a tick after its \<^verbatim>\<open>await\<close>, on what the capture settled with: the \<^verbatim>\<open>try\<close>
  block when the promise resolved, the \<^verbatim>\<open>catch\<close> clause when it rejected. It has no
  \<^verbatim>\<open>await\<close> of its own, so it runs as one step on the variables as they are at that
  moment.
\<close>

definition poll_settled ::
  "capture_result outcome \<Rightarrow> ws_client list \<Rightarrow> string \<Rightarrow> server_state \<Rightarrow> server_state \<times> effect list" where
  "poll_settled r cs t s =
     (case r of
        Resolved snapshot \<Rightarrow> poll_try snapshot cs t s
      | Rejected err \<Rightarrow> (poll_catch err s, []))"

text \<open>
  A tick whose capture settles before any other callback runs:
  \<^verbatim>\<open>
  if (!cdpConnection) { await initCDP(); return; }
  try { const snapshot = await captureSnapshot(cdpConnection); ... } catch (err) { ... }
  \<close>
  on the variables the tick finds. (Ticks whose captures overlap are the subject of the
  section on interleaved steps below.)
\<close>

definition poll_tick :: "tick_env \<Rightarrow> server_state \<Rightarrow> server_state \<times> effect list" where
  "poll_tick env s =
     (case cdpConnection s of
        None \<Rightarrow> snd (initCDP (reconnect env) 0 s [])
      | Some cdp \<Rightarrow>
          (case capture env cdp of
             Resolved snapshot \<Rightarrow> poll_try snapshot (clients env) (now env) s
           | Rejected err \<Rightarrow> (poll_catch err s, [])))"

text \<open>
  An unsuccessful capture is a null result or an object with an error; a successful one
  is a payload.
\<close>

fun unsuccessful :: "capture_result outcome \<Rightarrow> bool" where
  "unsuccessful (Resolved NullSnapshot) = True"
| "unsuccessful (Resolved (ErrorSnapshot err)) = True"
| "unsuccessful (Resolved (Snapshot snap)) = False"
| "unsuccessful (Rejected e) = False"

fun successful :: "capture_result outcome \<Rightarrow> bool" where
  "successful (Resolved (Snapshot snap)) = True"
| "successful r = False"

subsection \<open>The POST /instance handler\<close>

text \<open>
  What the handler meets: the answers of the ports should it scan them, how
  \<^verbatim>\<open>ws.close()\<close> on a socket returns, and what the target does during \<^verbatim>\<open>connectCDP\<close>.
\<close>

record switch_env =
  sw_scan_time :: "nat \<Rightarrow> nat"
  sw_scan_json :: "nat \<Rightarrow> cdp_target list outcome"
  sw_close :: "string \<Rightarrow> unit outcome"
  sw_connect :: "string \<Rightarrow> connect_env"

text \<open>
  The replies: 400 \<^verbatim>\<open>targetId required\<close>, 404 \<^verbatim>\<open>Target not found\<close>,
  200 \<^verbatim>\<open>{ success: true, activeTargetId, title }\<close>, 500 \<^verbatim>\<open>{ error: e.message }\<close>.
\<close>

datatype http_reply =
    BadRequest
  | NotFound
  | Switched "string option" string
  | ServerError "string option"

text \<open>
  \<^verbatim>\<open>
  if (cdpConnection && cdpConnection.ws) {
      try { cdpConnection.ws.close(); } catch (e) { }
  }
  \<close>
  The connection object always has its \<^verbatim>\<open>ws\<close>. Whether \<^verbatim>\<open>close()\<close> returns or raises,
  the handler goes on.
\<close>

definition close_existing :: "(string \<Rightarrow> unit outcome) \<Rightarrow> cdp_connection option \<Rightarrow> effect list" where
  "close_existing close conn =
     (case conn of
        None \<Rightarrow> []
      | Some cdp \<Rightarrow>
          (case close (ws cdp) of
             Resolved u \<Rightarrow> [WsClose (ws cdp)]
           | Rejected e \<Rightarrow> [WsClose (ws cdp)]))"

subsection \<open>The callbacks as interleaved steps\<close>

text \<open>
  The interval callback, \<^verbatim>\<open>initCDP\<close> and the \<^verbatim>\<open>POST /instance\<close> handler are \<^verbatim>\<open>async\<close>
  functions on the same module-level variables. Each runs without interruption from one
  \<^verbatim>\<open>await\<close> to the next; while it waits, any other callback can run. Nothing in the code
  serializes them: \<^verbatim>\<open>setInterval(async () => { ... }, POLL_INTERVAL)\<close> fires a tick every
  3 s whether or not the capture of an earlier tick has settled, and neither the ticks
  nor the handler look whether a connect sequence is under way.

  A task is a callback that waits at an \<^verbatim>\<open>await\<close>, with what it will be answered:
  \<^item> a tick waiting for \<^verbatim>\<open>captureSnapshot(cdpConnection)\<close>, called on the session the tick
    found;
  \<^item> \<^verbatim>\<open>initCDP\<close> in round \<open>k\<close> of its loop, waiting for \<^verbatim>\<open>discoverCDP()\<close>, for
    \<^verbatim>\<open>connectCDP(cdpInfo.url)\<close>, for \<^verbatim>\<open>discoverAllTargets()\<close>, or for the 5 s delay after
    a failed round;
  \<^item> the \<^verbatim>\<open>POST /instance\<close> handler waiting for \<^verbatim>\<open>discoverAllTargets()\<close> or for
    \<^verbatim>\<open>connectCDP(target.url)\<close>.
\<close>

datatype task =
    TickCapture tick_env cdp_connection
  | InitDiscover "nat \<Rightarrow> attempt_env" nat
  | InitConnect "nat \<Rightarrow> attempt_env" nat cdp_info
  | InitRescan "nat \<Rightarrow> attempt_env" nat
  | InitDelay "nat \<Rightarrow> attempt_env" nat
  | SwitchScan switch_env string
  | SwitchConnect switch_env cdp_instance
  | Finished

text \<open>
  What a step leaves: the variables, the task as it waits next, the actions and the
  replies of the step.
\<close>

type_synonym block = "server_state \<times> task \<times> effect list \<times> http_reply list"

text \<open>
  \<^verbatim>\<open>initCDP\<close>, step by step. The loop test \<^verbatim>\<open>while (cdpRetryCount < MAX_CDP_RETRIES)\<close>
  enters round \<open>k\<close>, which calls \<^verbatim>\<open>discoverCDP()\<close>, or leaves the loop.
\<close>

definition init_loop :: "(nat \<Rightarrow> attempt_env) \<Rightarrow> nat \<Rightarrow> server_state \<Rightarrow> task" where
  "init_loop env k s =
     (if cdpRetryCount s < MAX_CDP_RETRIES then InitDiscover env k else Finished)"

text \<open>
  \<^verbatim>\<open>discoverCDP()\<close> has settled: on a rejection the \<^verbatim>\<open>catch\<close> clause counts a retry and
  waits 5 s; otherwise \<^verbatim>\<open>connectCDP(cdpInfo.url)\<close> is called, which opens the socket.
\<close>

definition init_discovered :: "(nat \<Rightarrow> attempt_env) \<Rightarrow> nat \<Rightarrow> server_state \<Rightarrow> block" where
  "init_discovered env k s =
     (case discoverCDP (scan_time (env k)) (scan_json (env k)) of
        Rejected err \<Rightarrow> (s\<lparr>cdpRetryCount := cdpRetryCount s + 1\<rparr>, InitDelay env k, [], [])
      | Resolved cdpInfo \<Rightarrow> (s, InitConnect env k cdpInfo, [WsOpen (info_url cdpInfo)], []))"

text \<open>
  \<^verbatim>\<open>connectCDP\<close> has settled: on a rejection the \<^verbatim>\<open>catch\<close> clause; otherwise
  \<^verbatim>\<open>cdpConnection = ...; activeTargetId = cdpInfo.id || null;\<close> and
  \<^verbatim>\<open>discoverAllTargets()\<close> is called.
\<close>

definition init_connected ::
  "(nat \<Rightarrow> attempt_env) \<Rightarrow> nat \<Rightarrow> cdp_info \<Rightarrow> server_state \<Rightarrow> block" where
  "init_connected env k cdpInfo s =
     (case connectCDP (connect (env k) (info_url cdpInfo)) (info_url cdpInfo) of
        Rejected err \<Rightarrow> (s\<lparr>cdpRetryCount := cdpRetryCount s + 1\<rparr>, InitDelay env k, [], [])
      | Resolved cdp \<Rightarrow>
          (s\<lparr>cdpConnection := Some cdp,
             activeTargetId := (if info_id cdpInfo \<noteq> [] then Some (info_id cdpInfo) else None)\<rparr>,
           InitRescan env k, [], []))"

text \<open>
  \<^verbatim>\<open>discoverAllTargets()\<close> has settled:
  \<^verbatim>\<open>discoveredInstances = ...; cdpRetryCount = 0; snapshotFailCount = 0; return true;\<close>
\<close>

definition init_rescanned :: "(nat \<Rightarrow> attempt_env) \<Rightarrow> nat \<Rightarrow> server_state \<Rightarrow> block" where
  "init_rescanned env k s =
     (s\<lparr>discoveredInstances := discoverAllTargets (rescan_time (env k)) (rescan_json (env k)),
        cdpRetryCount := 0,
        snapshotFailCount := 0\<rparr>,
      Finished, [], [])"

text \<open>
  The \<^verbatim>\<open>POST /instance\<close> handler, step by step. From the look-up of the target to the
  call of \<^verbatim>\<open>connectCDP(target.url)\<close>:
  \<^verbatim>\<open>
  const target = discoveredInstances.find(i => i.id === targetId);
  if (!target) { return res.status(404).json({ error: 'Target not found' }); }
  if (cdpConnection && cdpConnection.ws) { try { cdpConnection.ws.close(); } catch (e) { } }
  cdpConnection = null; lastSnapshot = null; lastSnapshotHash = null;
  cdpConnection = await connectCDP(target.url);
  \<close>
\<close>

definition switch_found :: "switch_env \<Rightarrow> string \<Rightarrow> server_state \<Rightarrow> block" where
  "switch_found env targetId s =
     (case find (\<lambda>i. i_id i = targetId) (discoveredInstances s) of
        None \<Rightarrow> (s, Finished, [], [NotFound])
      | Some target \<Rightarrow>
          (s\<lparr>cdpConnection := None, lastSnapshot := None, lastSnapshotHash := None\<rparr>,
           SwitchConnect env target,
           close_existing (sw_close env) (cdpConnection s) @ [WsOpen (i_url target)],
           []))"

text \<open>
  The request arrives:
  \<^verbatim>\<open>
  const { targetId } = req.body;
  if (!targetId) return res.status(400).json({ error: 'targetId required' });
  try {
      if (discoveredInstances.length === 0) { discoveredInstances = await discoverAllTargets(); }
  \<close>
  With instances at hand there is no \<^verbatim>\<open>await\<close> before the look-up.
\<close>

definition switch_request :: "switch_env \<Rightarrow> string \<Rightarrow> server_state \<Rightarrow> block" where
  "switch_request env targetId s =
     (if targetId = [] then (s, Finished, [], [BadRequest])
      else if discoveredInstances s = [] then (s, SwitchScan env targetId, [], [])
      else switch_found env targetId s)"

text \<open>\<^verbatim>\<open>discoverAllTargets()\<close> has settled: the assignment, then the look-up.\<close>

definition switch_scanned :: "switch_env \<Rightarrow> string \<Rightarrow> server_state \<Rightarrow> block" where
  "switch_scanned env targetId s =
     switch_found env targetId
       (s\<lparr>discoveredInstances := discoverAllTargets (sw_scan_time env) (sw_scan_json env)\<rparr>)"

text \<open>
  \<^verbatim>\<open>connectCDP(target.url)\<close> has settled:
  \<^verbatim>\<open>
      cdpConnection = ...;
      activeTargetId = target.id;
      snapshotFailCount = 0; cdpRetryCount = 0;
      res.json({ success: true, activeTargetId, title: target.title });
  } catch (e) { res.status(500).json({ error: e.message }); }
  \<close>
\<close>

definition switch_settled :: "switch_env \<Rightarrow> cdp_instance \<Rightarrow> server_state \<Rightarrow> block" where
  "switch_settled env target s =
     (case connectCDP (sw_connect env (i_url target)) (i_url target) of
        Rejected e \<Rightarrow> (s, Finished, [], [ServerError (message e)])
      | Resolved cdp \<Rightarrow>
          (s\<lparr>cdpConnection := Some cdp,
             activeTargetId := Some (i_id target),
             snapshotFailCount := 0,
             cdpRetryCount := 0\<rparr>,
           Finished, [],
           [Switched (Some (i_id target)) (i_title target)]))"

text \<open>A task goes on from its \<^verbatim>\<open>await\<close> to its next one, or to its end.\<close>

fun resume_task :: "task \<Rightarrow> server_state \<Rightarrow> block" where
  "resume_task (TickCapture env cdp) s =
     (case poll_settled (capture env cdp) (clients env) (now env) s of
        (s', out) \<Rightarrow> (s', Finished, out, []))"
| "resume_task (InitDiscover env k) s = init_discovered env k s"
| "resume_task (InitConnect env k cdpInfo) s = init_connected env k cdpInfo s"
| "resume_task (InitRescan env k) s = init_rescanned env k s"
| "resume_task (InitDelay env k) s = (s, init_loop env (k + 1) s, [], [])"
| "resume_task (SwitchScan env targetId) s = switch_scanned env targetId s"
| "resume_task (SwitchConnect env target) s = switch_settled env target s"
| "resume_task Finished s = (s, Finished, [], [])"

text \<open>
  The server: the variables, the tasks started so far (a task is named by its position),
  the actions and the replies so far.
\<close>

record server =
  vars :: server_state
  tasks :: "task list"
  actions :: "effect list"
  replies :: "http_reply list"

text \<open>
  What can happen next: the interval fires, a \<^verbatim>\<open>POST /instance\<close> request arrives, or what
  task \<open>i\<close> waits for settles and the task goes on. A tick that fires
  (\<^verbatim>\<open>if (!cdpConnection) { await initCDP(); return; }\<close>, else
  \<^verbatim>\<open>await captureSnapshot(cdpConnection)\<close>) only reads the variables before it waits.
\<close>

datatype event = TickFires tick_env | Request switch_env string | Resume nat

fun server_step :: "server \<Rightarrow> event \<Rightarrow> server" where
  "server_step c (TickFires env) =
     c\<lparr>tasks := tasks c @
         [case cdpConnection (vars c) of
            None \<Rightarrow> init_loop (reconnect env) 0 (vars c)
          | Some cdp \<Rightarrow> TickCapture env cdp]\<rparr>"
| "server_step c (Request env targetId) =
     (case switch_request env targetId (vars c) of
        (s', t, out, rep) \<Rightarrow>
          c\<lparr>vars := s', tasks := tasks c @ [t],
            actions := actions c @ out, replies := replies c @ rep\<rparr>)"
| "server_step c (Resume i) =
     (if i < length (tasks c)
      then (case resume_task (tasks c ! i) (vars c) of
              (s', t, out, rep) \<Rightarrow>
                c\<lparr>vars := s', tasks := (tasks c)[i := t],
                  actions := actions c @ out, replies := replies c @ rep\<rparr>)
      else c)"

definition run_server :: "event list \<Rightarrow> server \<Rightarrow> server" where
  "run_server evs c = foldl server_step c evs"

text \<open>The server with the variables \<open>s\<close> and nothing under way.\<close>

definition idle :: "server_state \<Rightarrow> server" where
  "idle s = \<lparr>vars = s, tasks = [], actions = [], replies = []\<rparr>"

text \<open>
  The outcomes of the captures that a schedule lets settle, in the order in which they
  settle.
\<close>

fun settled :: "server \<Rightarrow> event list \<Rightarrow> capture_result outcome list" where
  "settled c [] = []"
| "settled c (Resume i # evs) =
     (if i < length (tasks c)
      then (case tasks c ! i of
              TickCapture env cdp \<Rightarrow> [capture env cdp]
            | _ \<Rightarrow> [])
      else [])
     @ settled (server_step c (Resume i)) evs"
| "settled c (e # evs) = settled (server_step c e) evs"

text \<open>The capture outcomes of the ticks of a schedule, in the order in which the ticks fire.\<close>

fun fired :: "cdp_connection \<Rightarrow> event list \<Rightarrow> capture_result outcome list" where
  "fired cdp [] = []"
| "fired cdp (TickFires env # evs) = capture env cdp # fired cdp evs"
| "fired cdp (e # evs) = fired cdp evs"

text \<open>
  A schedule of the polling loop alone: ticks fire and captures settle, no request
  arrives and no reconnect goes on.
\<close>

fun polling_only :: "server \<Rightarrow> event list \<Rightarrow> bool" where
  "polling_only c [] = True"
| "polling_only c (TickFires env # evs) = polling_only (server_step c (TickFires env)) evs"
| "polling_only c (Request env targetId # evs) = False"
| "polling_only c (Resume i # evs) =
     ((i < length (tasks c) \<and>
       (case tasks c ! i of TickCapture env cdp \<Rightarrow> True | _ \<Rightarrow> False))
      \<and> polling_only (server_step c (Resume i)) evs)"

text \<open>
  The number of steps of a schedule that tear the session down: there is a session before
  the step and none after it.
\<close>

fun teardowns :: "server \<Rightarrow> event list \<Rightarrow> nat" where
  "teardowns c [] = 0"
| "teardowns c (e # evs) =
     (if cdpConnection (vars c) \<noteq> None \<and> cdpConnection (vars (server_step c e)) = None
      then 1 else 0)
     + teardowns (server_step c e) evs"

subsection \<open>Concrete states and environments\<close>

text \<open>A session on port 9000 with one execution context, and the server connected to it.\<close>

definition ex_cdp :: cdp_connection where
  "ex_cdp =
     \<lparr>ws = ''ws://127.0.0.1:9000/devtools/page/A'',
      getContexts = [\<lparr>ctx_id = 1, ctx_name = ''top'', ctx_origin = ''vscode-file://vscode-app''\<rparr>]\<rparr>"

definition ex_connected :: server_state where
  "ex_connected = initial_state\<lparr>cdpConnection := Some ex_cdp\<rparr>"

text \<open>A network on which no port answers and no socket opens.\<close>

definition ex_refused :: js_error where
  "ex_refused = JsError (Some ''connect ECONNREFUSED 127.0.0.1'')"

definition ex_no_target :: connect_env where
  "ex_no_target = \<lparr>ws_open = Rejected ex_refused, runtime_enable = Rejected ex_refused, init_frames = []\<rparr>"

definition ex_offline :: "nat \<Rightarrow> attempt_env" where
  "ex_offline k =
     \<lparr>scan_time = (\<lambda>i. i), scan_json = (\<lambda>port. Rejected ex_refused),
      connect = (\<lambda>url. ex_no_target),
      rescan_time = (\<lambda>i. i), rescan_json = (\<lambda>port. Rejected ex_refused)\<rparr>"

text \<open>
  A tick whose capture yields \<open>r\<close>, with one open and one closed client socket.
\<close>

definition ex_tick :: "capture_result outcome \<Rightarrow> tick_env" where
  "ex_tick r =
     \<lparr>capture = (\<lambda>cdp. r),
      clients = [\<lparr>client_id = 1, readyState = OPEN\<rparr>, \<lparr>client_id = 2, readyState = CLOSED\<rparr>],
      now = ''2026-01-01T00:00:00.000Z'',
      reconnect = ex_offline\<rparr>"

text \<open>Two payloads with the same \<^verbatim>\<open>html\<close> (the code units of \<^verbatim>\<open>hi\<close>) and different styles.\<close>

definition ex_snap :: snapshot where
  "ex_snap =
     \<lparr>html = [104, 105], css = ''p { color: red }'', backgroundColor = ''rgb(0, 0, 0)'',
      color = ''rgb(255, 255, 255)'', fontFamily = ''monospace''\<rparr>"

definition ex_snap_restyled :: snapshot where
  "ex_snap_restyled =
     \<lparr>html = [104, 105], css = ''p { color: blue }'', backgroundColor = ''rgb(255, 255, 255)'',
      color = ''rgb(0, 0, 0)'', fontFamily = ''serif''\<rparr>"

text \<open>
  A transport whose socket has closed: every \<^verbatim>\<open>cdp.call\<close> rejects with the error of the
  closed socket. A tick on it runs the real \<^verbatim>\<open>captureSnapshot\<close>.
\<close>

definition ex_ws_closed :: js_error where
  "ex_ws_closed = JsError (Some ''WebSocket is not open: readyState 3 (CLOSED)'')"

definition ex_dead_rpc :: capture_rpc where
  "ex_dead_rpc = \<lparr>probe_call = (\<lambda>i. Rejected ex_ws_closed), snap_call = (\<lambda>i. Rejected ex_ws_closed)\<rparr>"

definition ex_dead_tick :: tick_env where
  "ex_dead_tick = (ex_tick (Resolved NullSnapshot))\<lparr>capture := captureSnapshot ex_dead_rpc\<rparr>"

text \<open>
  A second target on port 9001 among the discovered instances, and a switch to it during
  which three frames arrive: two contexts are created and one of them is destroyed.
\<close>

definition ex_target_B :: cdp_instance where
  "ex_target_B =
     \<lparr>i_id = ''B'', i_port = 9001, i_url = ''ws://127.0.0.1:9001/devtools/page/B'',
      i_title = ''Antigravity B'', i_pageUrl = ''vscode-file://b/workbench.html''\<rparr>"

definition ex_switch_env :: switch_env where
  "ex_switch_env =
     \<lparr>sw_scan_time = (\<lambda>i. i), sw_scan_json = (\<lambda>port. Rejected ex_refused),
      sw_close = (\<lambda>url. Resolved ()),
      sw_connect = (\<lambda>url.
        \<lparr>ws_open = Resolved (), runtime_enable = Resolved ''{}'',
         init_frames =
           [ExecutionContextCreated \<lparr>ctx_id = 7, ctx_name = ''b-top'', ctx_origin = ''o''\<rparr>,
            ExecutionContextCreated \<lparr>ctx_id = 8, ctx_name = ''b-view'', ctx_origin = ''o''\<rparr>,
            ExecutionContextCreated \<lparr>ctx_id = 9, ctx_name = ''b-ext'', ctx_origin = ''o''\<rparr>,
            ExecutionContextDestroyed 8]\<rparr>)\<rparr>"

definition ex_two_targets :: server_state where
  "ex_two_targets =
     ex_connected\<lparr>discoveredInstances :=
       [\<lparr>i_id = ''A'', i_port = 9000, i_url = ''ws://127.0.0.1:9000/devtools/page/A'',
         i_title = ''Antigravity A'', i_pageUrl = ''vscode-file://a/workbench.html''\<rparr>,
        ex_target_B],
       cdpRetryCount := 3, snapshotFailCount := 2\<rparr>"



text \<open>
  Nine ticks fire on a session: the captures of the first four yield null, that of the
  fifth a payload, those of the last four null again. In the first schedule every capture
  settles before the next tick fires. In the second the capture of the fourth tick is
  still under way when the fifth tick fires, and settles after the capture of the fifth.
  In the third, in addition, a tenth tick fires before the capture of the ninth settles.
\<close>

definition ex_null_tick :: event where
  "ex_null_tick = TickFires (ex_tick (Resolved NullSnapshot))"

definition ex_good_tick :: event where
  "ex_good_tick = TickFires (ex_tick (Resolved (Snapshot ex_snap)))"

definition ex_in_tick_order :: "event list" where
  "ex_in_tick_order =
     [ex_null_tick, Resume 0, ex_null_tick, Resume 1, ex_null_tick, Resume 2,
      ex_null_tick, Resume 3, ex_good_tick, Resume 4,
      ex_null_tick, Resume 5, ex_null_tick, Resume 6, ex_null_tick, Resume 7,
      ex_null_tick, Resume 8]"

definition ex_overlap :: "event list" where
  "ex_overlap =
     [ex_null_tick, Resume 0, ex_null_tick, Resume 1, ex_null_tick, Resume 2,
      ex_null_tick, ex_good_tick, Resume 4, Resume 3,
      ex_null_tick, Resume 5, ex_null_tick, Resume 6, ex_null_tick, Resume 7,
      ex_null_tick, Resume 8]"

definition ex_late_capture :: "event list" where
  "ex_late_capture = butlast ex_overlap @ [ex_null_tick, Resume 8, Resume 9]"

text \<open>
  Five ticks whose captures yield an object with an error; the first two captures
  overlap.
\<close>

definition ex_five_errors :: "event list" where
  "ex_five_errors =
     [TickFires (ex_tick (Resolved (ErrorSnapshot ''x''))),
      TickFires (ex_tick (Resolved (ErrorSnapshot ''x''))), Resume 1, Resume 0,
      TickFires (ex_tick (Resolved (ErrorSnapshot ''x''))), Resume 2,
      TickFires (ex_tick (Resolved (ErrorSnapshot ''x''))), Resume 3,
      TickFires (ex_tick (Resolved (ErrorSnapshot ''x''))), Resume 4]"





text \<open>
  Two calls on a new transport, then the response to the first.
\<close>

definition ex_two_calls :: "transport_event list" where
  "ex_two_calls =
     [Call ''Runtime.enable'', Call ''Runtime.evaluate'', Frame (CallResponse 1 (Inr ''{}''))]"

section \<open>Properties\<close>

subsection \<open>Execution-context registry\<close>

lemma find_None_iff_ctx: "(find P xs = None) = (\<not> (\<exists>x \<in> set xs. P x))"
  by (induction xs) auto

lemma on_context_message_refines:
  "set (on_context_message contexts m) = spec_registry_rule (set contexts) m"
  by (cases m) (auto simp: find_None_iff_ctx)

lemma on_context_message_distinct:
  "distinct (map ctx_id contexts) \<Longrightarrow> distinct (map ctx_id (on_context_message contexts m))"
  by (cases m) (auto simp: find_None_iff_ctx distinct_map_filter)

lemma foldl_context_messages_distinct:
  "distinct (map ctx_id contexts) \<Longrightarrow>
   distinct (map ctx_id (foldl on_context_message contexts msgs))"
  by (induction msgs arbitrary: contexts) (simp_all add: on_context_message_distinct)

text \<open>
  C3: for every sequence of protocol events applied to the execution-context registry,
  starting from any registry content, the contexts the handler ends with are, as a set,
  the fold of the specification's rules over the same event stream: cleared empties the
  set, destroyed removes exactly the context with the matching id, created adds the
  context unless its id is present, and any other message leaves the set unchanged.
  No id is ever held twice: a registry with distinct ids keeps them distinct.
\<close>

theorem registry_replay_refines_spec:
  "set (replay_contexts contexts msgs) = foldl spec_registry_rule (set contexts) msgs
   \<and> (distinct (map ctx_id contexts) \<longrightarrow> distinct (map ctx_id (replay_contexts contexts msgs)))"
proof
  show "set (replay_contexts contexts msgs) = foldl spec_registry_rule (set contexts) msgs"
    unfolding replay_contexts_def
  proof (induction msgs arbitrary: contexts)
    case Nil
    show ?case by simp
  next
    case (Cons m msgs)
    have "set (foldl on_context_message (on_context_message contexts m) msgs)
        = foldl spec_registry_rule (set (on_context_message contexts m)) msgs"
      by (rule Cons.IH)
    then show ?case by (simp add: on_context_message_refines)
  qed
  show "distinct (map ctx_id contexts) \<longrightarrow> distinct (map ctx_id (replay_contexts contexts msgs))"
    by (simp add: replay_contexts_def foldl_context_messages_distinct)
qed

theorem registry_replay_refines_spec_witness:
  "set (replay_contexts []
      [ExecutionContextCreated \<lparr>ctx_id = 1, ctx_name = ''top'', ctx_origin = ''vscode-file://vscode-app''\<rparr>,
       OtherEvent ''Runtime.consoleAPICalled'',
       ExecutionContextCreated \<lparr>ctx_id = 1, ctx_name = ''again'', ctx_origin = ''x''\<rparr>,
       ExecutionContextCreated \<lparr>ctx_id = 2, ctx_name = ''webview'', ctx_origin = ''vscode-webview://x''\<rparr>,
       ExecutionContextDestroyed 1])
   = {\<lparr>ctx_id = 2, ctx_name = ''webview'', ctx_origin = ''vscode-webview://x''\<rparr>}
   \<and> distinct (map ctx_id (replay_contexts []
      [ExecutionContextCreated \<lparr>ctx_id = 1, ctx_name = ''top'', ctx_origin = ''vscode-file://vscode-app''\<rparr>,
       OtherEvent ''Runtime.consoleAPICalled'',
       ExecutionContextCreated \<lparr>ctx_id = 1, ctx_name = ''again'', ctx_origin = ''x''\<rparr>,
       ExecutionContextCreated \<lparr>ctx_id = 2, ctx_name = ''webview'', ctx_origin = ''vscode-webview://x''\<rparr>,
       ExecutionContextDestroyed 1]))"
proof -
  note t = registry_replay_refines_spec [of "[]"
      "[ExecutionContextCreated \<lparr>ctx_id = 1, ctx_name = ''top'', ctx_origin = ''vscode-file://vscode-app''\<rparr>,
       OtherEvent ''Runtime.consoleAPICalled'',
       ExecutionContextCreated \<lparr>ctx_id = 1, ctx_name = ''again'', ctx_origin = ''x''\<rparr>,
       ExecutionContextCreated \<lparr>ctx_id = 2, ctx_name = ''webview'', ctx_origin = ''vscode-webview://x''\<rparr>,
       ExecutionContextDestroyed 1]"]
  have d: "distinct (map ctx_id ([] :: exec_context list))" by simp
  have p1: "set (replay_contexts []
      [ExecutionContextCreated \<lparr>ctx_id = 1, ctx_name = ''top'', ctx_origin = ''vscode-file://vscode-app''\<rparr>,
       OtherEvent ''Runtime.consoleAPICalled'',
       ExecutionContextCreated \<lparr>ctx_id = 1, ctx_name = ''again'', ctx_origin = ''x''\<rparr>,
       ExecutionContextCreated \<lparr>ctx_id = 2, ctx_name = ''webview'', ctx_origin = ''vscode-webview://x''\<rparr>,
       ExecutionContextDestroyed 1])
   = {\<lparr>ctx_id = 2, ctx_name = ''webview'', ctx_origin = ''vscode-webview://x''\<rparr>}"
    using t [THEN conjunct1] by (simp add: replay_contexts_def)
  note p2 = t [THEN conjunct2, rule_format, OF d]
  from p1 p2 show ?thesis by (rule conjI)
qed

subsection \<open>Target discovery\<close>

lemma fill_slots_length:
  "length (foldl (\<lambda>slots i. slots[i := Some (vals ! i)]) slots is) = length slots"
  by (induction "is" arbitrary: slots) auto

lemma fill_slots_nth:
  "j < length slots \<Longrightarrow>
   foldl (\<lambda>slots i. slots[i := Some (vals ! i)]) slots is ! j
     = (if j \<in> set is then Some (vals ! j) else slots ! j)"
proof (induction "is" arbitrary: slots)
  case Nil
  show ?case by simp
next
  case (Cons i "is")
  have len: "j < length (slots[i := Some (vals ! i)])" using Cons.prems by simp
  show ?case
    using Cons.IH [OF len] Cons.prems
    by (cases "i = j") auto
qed

lemma map_filter_id_Some: "List.map_filter id (map Some xs) = xs"
  by (induction xs) (auto simp: List.map_filter_simps)

lemma promise_all_eq: "promise_all settle_time vals = vals"
proof -
  let ?order = "sort_key settle_time [0..<length vals]"
  let ?slots = "foldl (\<lambda>slots i. slots[i := Some (vals ! i)]) (replicate (length vals) None) ?order"
  have "?slots = map Some vals"
  proof (rule nth_equalityI)
    show "length ?slots = length (map Some vals)" by (simp add: fill_slots_length)
  next
    fix j assume "j < length ?slots"
    then have j: "j < length vals" by (simp add: fill_slots_length)
    then have "j \<in> set ?order" by simp
    then show "?slots ! j = map Some vals ! j"
      using j by (simp add: fill_slots_nth)
  qed
  then show ?thesis by (simp add: promise_all_def map_filter_id_Some)
qed

lemma find_not_None_none:
  "(\<forall>r \<in> set rs. r = None) \<Longrightarrow> find (\<lambda>r. r \<noteq> None) rs = None"
  by (induction rs) auto

lemma find_not_None_first:
  assumes "i < length rs" "rs ! i = Some m" "\<forall>j < i. rs ! j = None"
  shows "find (\<lambda>r. r \<noteq> None) rs = Some (Some m)"
  using assms
proof (induction rs arbitrary: i)
  case Nil
  then show ?case by simp
next
  case (Cons r rs)
  show ?case
  proof (cases i)
    case 0
    with Cons.prems show ?thesis by simp
  next
    case (Suc k)
    from Cons.prems Suc have r: "r = None" by auto
    have "find (\<lambda>r. r \<noteq> None) rs = Some (Some m)"
    proof (rule Cons.IH [of k])
      show "k < length rs" using Cons.prems Suc by simp
      show "rs ! k = Some m" using Cons.prems Suc by simp
      show "\<forall>j<k. rs ! j = None"
      proof (intro allI impI)
        fix j assume "j < k"
        then have "Suc j < i" using Suc by simp
        with Cons.prems have "(r # rs) ! Suc j = None" by blast
        then show "rs ! j = None" by simp
      qed
    qed
    with r show ?thesis by simp
  qed
qed

lemma discoverCDP_none:
  "(\<forall>p \<in> set PORTS. checkPort getJson p = None) \<Longrightarrow>
   discoverCDP settle_time getJson = Rejected NoTargetFound"
proof -
  assume "\<forall>p \<in> set PORTS. checkPort getJson p = None"
  then have "find (\<lambda>r. r \<noteq> None) (map (checkPort getJson) PORTS) = None"
    by (intro find_not_None_none) auto
  then show ?thesis by (simp add: discoverCDP_def promise_all_eq)
qed

lemma discoverCDP_first:
  assumes "i < length PORTS" "checkPort getJson (PORTS ! i) = Some m"
    "\<forall>j < i. checkPort getJson (PORTS ! j) = None"
  shows "discoverCDP settle_time getJson =
     Resolved \<lparr>info_port = m_port m, info_url = m_url m, info_id = m_id m\<rparr>"
proof -
  have "find (\<lambda>r. r \<noteq> None) (map (checkPort getJson) PORTS) = Some (Some m)"
    by (rule find_not_None_first [of i]) (use assms in auto)
  then show ?thesis by (simp add: discoverCDP_def promise_all_eq)
qed

lemma checkPort_port: "checkPort getJson p = Some m \<Longrightarrow> m_port m = p"
  by (auto simp: checkPort_def split: outcome.splits option.splits if_splits)

lemma discoverCDP_rejected_only_if:
  assumes "discoverCDP settle_time getJson = Rejected e"
  shows "e = NoTargetFound \<and> (\<forall>p \<in> set PORTS. checkPort getJson p = None)"
proof -
  let ?rs = "map (checkPort getJson) PORTS"
  have f: "find (\<lambda>r. r \<noteq> None) ?rs = None \<or> find (\<lambda>r. r \<noteq> None) ?rs = Some None"
    using assms
    by (auto simp: discoverCDP_def promise_all_eq split: option.splits)
  have "find (\<lambda>r. r \<noteq> None) ?rs \<noteq> Some None"
    by (auto simp: find_Some_iff)
  with f have "find (\<lambda>r. r \<noteq> None) ?rs = None" by simp
  then have "\<forall>p \<in> set PORTS. checkPort getJson p = None"
    by (auto simp: find_None_iff)
  moreover have "e = NoTargetFound"
    using assms by (auto simp: discoverCDP_def promise_all_eq split: option.splits)
  ultimately show ?thesis by simp
qed

text \<open>
  C1: whatever the order in which the five probes settle, \<^verbatim>\<open>discoverCDP\<close> returns the
  same value; it is the match of the first port of \<^verbatim>\<open>PORTS\<close> whose probe produced a
  match (every port before it produced none), and it fails, with the
  "CDP not found" error, exactly when no port produced a match.
\<close>

theorem discoverCDP_priority_order:
  "discoverCDP settle_time getJson = discoverCDP settle_time' getJson
   \<and> (i < length PORTS \<longrightarrow> checkPort getJson (PORTS ! i) = Some m
          \<longrightarrow> (\<forall>j < i. checkPort getJson (PORTS ! j) = None)
        \<longrightarrow> m_port m = PORTS ! i
          \<and> discoverCDP settle_time getJson =
              Resolved \<lparr>info_port = PORTS ! i, info_url = m_url m, info_id = m_id m\<rparr>)
   \<and> ((\<exists>e. discoverCDP settle_time getJson = Rejected e)
        \<longleftrightarrow> (\<forall>p \<in> set PORTS. checkPort getJson p = None))
   \<and> (discoverCDP settle_time getJson = Rejected e \<longrightarrow> e = NoTargetFound)"
proof (intro conjI impI)
  show "discoverCDP settle_time getJson = discoverCDP settle_time' getJson"
    by (simp add: discoverCDP_def promise_all_eq)
next
  assume a: "i < length PORTS" "checkPort getJson (PORTS ! i) = Some m"
     "\<forall>j < i. checkPort getJson (PORTS ! j) = None"
  then show p: "m_port m = PORTS ! i"
    using checkPort_port [of getJson "PORTS ! i" m] by simp
  from a have "discoverCDP settle_time getJson =
     Resolved \<lparr>info_port = m_port m, info_url = m_url m, info_id = m_id m\<rparr>"
    by (intro discoverCDP_first [of i]) auto
  with p show "discoverCDP settle_time getJson =
              Resolved \<lparr>info_port = PORTS ! i, info_url = m_url m, info_id = m_id m\<rparr>"
    by simp
next
  show "(\<exists>e. discoverCDP settle_time getJson = Rejected e)
        \<longleftrightarrow> (\<forall>p \<in> set PORTS. checkPort getJson p = None)"
    using discoverCDP_rejected_only_if [of settle_time getJson]
      discoverCDP_none [of getJson settle_time] by blast
next
  assume "discoverCDP settle_time getJson = Rejected e"
  then show "e = NoTargetFound" using discoverCDP_rejected_only_if by blast
qed

theorem discoverCDP_priority_order_witness:
  "discoverCDP (\<lambda>i. 4 - i) ex_getJson
     = Resolved \<lparr>info_port = 9001, info_url = ''ws://127.0.0.1:9001/devtools/page/A1'', info_id = ''A1''\<rparr>
   \<and> discoverCDP (\<lambda>i. 4 - i) ex_getJson = discoverCDP (\<lambda>i. i) ex_getJson
   \<and> discoverCDP (\<lambda>i. i) (\<lambda>port. Rejected ex_refused) = Rejected NoTargetFound"
proof -
  note t = discoverCDP_priority_order [of "\<lambda>i. 4 - i" ex_getJson "\<lambda>i. i" 1
      "\<lparr>m_port = 9001, m_url = ''ws://127.0.0.1:9001/devtools/page/A1'',
        m_title = ''proj - Antigravity'', m_id = ''A1''\<rparr>"]
  have p1: "discoverCDP (\<lambda>i. 4 - i) ex_getJson
     = Resolved \<lparr>info_port = 9001, info_url = ''ws://127.0.0.1:9001/devtools/page/A1'', info_id = ''A1''\<rparr>"
    using t [THEN conjunct2, THEN conjunct1]
    by (simp add: PORTS_def checkPort_def ex_getJson_def is_workbench_page_def)
  note p2 = t [THEN conjunct1]
  have none: "\<forall>p \<in> set PORTS. checkPort (\<lambda>port. Rejected ex_refused) p = None"
    by (simp add: checkPort_def)
  obtain e where e: "discoverCDP (\<lambda>i. i) (\<lambda>port. Rejected ex_refused) = Rejected e"
    using discoverCDP_priority_order [of "\<lambda>i. i" "\<lambda>port. Rejected ex_refused" "\<lambda>i. i" 0 "\<lparr>m_port = 9000, m_url = ''u'', m_title = ''t'', m_id = ''x''\<rparr>" NoTargetFound,
        THEN conjunct2, THEN conjunct2, THEN conjunct1] none
    by blast
  have "e = NoTargetFound"
    using discoverCDP_priority_order [of "\<lambda>i. i" "\<lambda>port. Rejected ex_refused" "\<lambda>i. i" 0 "\<lparr>m_port = 9000, m_url = ''u'', m_title = ''t'', m_id = ''x''\<rparr>" e,
        THEN conjunct2, THEN conjunct2, THEN conjunct2] e
    by blast
  with e have p3: "discoverCDP (\<lambda>i. i) (\<lambda>port. Rejected ex_refused) = Rejected NoTargetFound"
    by simp
  from p1 p2 p3 show ?thesis by blast
qed

lemma foldl_add_target_concat:
  "foldl (\<lambda>acc portTargets. foldl add_target acc portTargets) acc results
     = foldl add_target acc (concat results)"
  by (induction results arbitrary: acc) auto

lemma add_target_inv:
  assumes "fst acc = i_url ` set (snd acc)" "distinct (map i_url (snd acc))"
  shows "fst (add_target acc t) = i_url ` set (snd (add_target acc t))
     \<and> distinct (map i_url (snd (add_target acc t)))
     \<and> i_url ` set (snd (add_target acc t)) = insert (i_url t) (i_url ` set (snd acc))
     \<and> set (snd (add_target acc t)) \<subseteq> insert t (set (snd acc))"
  using assms by (cases acc) (auto simp: add_target_def)

lemma foldl_add_target_inv:
  assumes "fst acc = i_url ` set (snd acc)" "distinct (map i_url (snd acc))"
  shows "fst (foldl add_target acc ts) = i_url ` set (snd (foldl add_target acc ts))
     \<and> distinct (map i_url (snd (foldl add_target acc ts)))
     \<and> i_url ` set (snd (foldl add_target acc ts)) = i_url ` set ts \<union> i_url ` set (snd acc)
     \<and> set (snd (foldl add_target acc ts)) \<subseteq> set ts \<union> set (snd acc)"
  using assms
proof (induction ts arbitrary: acc)
  case Nil
  then show ?case by simp
next
  case (Cons t ts)
  note step = add_target_inv [OF Cons.prems, of t]
  have ih: "fst (foldl add_target (add_target acc t) ts)
        = i_url ` set (snd (foldl add_target (add_target acc t) ts))
     \<and> distinct (map i_url (snd (foldl add_target (add_target acc t) ts)))
     \<and> i_url ` set (snd (foldl add_target (add_target acc t) ts))
        = i_url ` set ts \<union> i_url ` set (snd (add_target acc t))
     \<and> set (snd (foldl add_target (add_target acc t) ts)) \<subseteq> set ts \<union> set (snd (add_target acc t))"
    by (rule Cons.IH) (use step in auto)
  show ?case using ih step by auto
qed

lemma discoverAllTargets_eq:
  "discoverAllTargets settle_time getJson
     = snd (foldl add_target ({}, []) (concat (map (checkPortAll getJson) PORTS)))"
  by (simp add: discoverAllTargets_def promise_all_eq foldl_add_target_concat)

lemma checkPortAll_port: "t \<in> set (checkPortAll getJson p) \<Longrightarrow> i_port t = p"
  by (auto simp: checkPortAll_def to_instance_def split: outcome.splits)

text \<open>
  C8: whatever the order in which the probes settle, \<^verbatim>\<open>discoverAllTargets\<close> returns the
  same list; no two of its elements share the per-target identifier the code keys on
  (the debugger URL, not the port), every match of every port is represented by an
  element with its identifier, and every element is a match of the port it is annotated
  with.
\<close>

theorem discoverAllTargets_dedup:
  "discoverAllTargets settle_time getJson = discoverAllTargets settle_time' getJson
   \<and> distinct (map i_url (discoverAllTargets settle_time getJson))
   \<and> i_url ` set (discoverAllTargets settle_time getJson)
       = i_url ` (\<Union>p \<in> set PORTS. set (checkPortAll getJson p))
   \<and> (\<forall>t \<in> set (discoverAllTargets settle_time getJson).
         i_port t \<in> set PORTS \<and> t \<in> set (checkPortAll getJson (i_port t)))"
proof -
  let ?ts = "concat (map (checkPortAll getJson) PORTS)"
  have inv: "distinct (map i_url (snd (foldl add_target ({}, []) ?ts)))
     \<and> i_url ` set (snd (foldl add_target ({}, []) ?ts)) = i_url ` set ?ts \<union> i_url ` set (snd ({}, []))
     \<and> set (snd (foldl add_target ({}, []) ?ts)) \<subseteq> set ?ts \<union> set (snd ({}, []))"
    using foldl_add_target_inv [of "({}, [])" ?ts] by simp
  have a: "discoverAllTargets settle_time getJson = discoverAllTargets settle_time' getJson"
    by (simp add: discoverAllTargets_eq)
  have b: "distinct (map i_url (discoverAllTargets settle_time getJson))"
    using inv by (simp add: discoverAllTargets_eq)
  have c: "i_url ` set (discoverAllTargets settle_time getJson)
       = i_url ` (\<Union>p \<in> set PORTS. set (checkPortAll getJson p))"
    using inv by (simp add: discoverAllTargets_eq)
  have d: "\<forall>t \<in> set (discoverAllTargets settle_time getJson).
         i_port t \<in> set PORTS \<and> t \<in> set (checkPortAll getJson (i_port t))"
  proof
    fix t assume "t \<in> set (discoverAllTargets settle_time getJson)"
    then have "t \<in> set ?ts" using inv by (auto simp: discoverAllTargets_eq)
    then obtain p where p: "p \<in> set PORTS" "t \<in> set (checkPortAll getJson p)" by auto
    then have "i_port t = p" by (simp add: checkPortAll_port)
    with p show "i_port t \<in> set PORTS \<and> t \<in> set (checkPortAll getJson (i_port t))" by simp
  qed
  from a b c d show ?thesis by blast
qed

subsection \<open>RPC transport\<close>

lemma handler_other: "i \<noteq> j \<Longrightarrow> handler i (CallResponse j r) t = t"
  by simp

lemma handlers_other_frame:
  "j \<notin> set hs \<Longrightarrow> foldl (\<lambda>t' i. handler i (CallResponse j r) t') t hs = t"
proof (induction hs arbitrary: t)
  case Nil
  show ?case by simp
next
  case (Cons h hs)
  then have "h \<noteq> j" "j \<notin> set hs" by auto
  then show ?case using Cons.IH by (simp add: handler_other del: handler.simps)
qed

lemma handler_not_response:
  "(\<And>j r. msg \<noteq> CallResponse j r) \<Longrightarrow> handler i msg t = t"
  by (cases msg) auto

lemma handlers_not_response:
  "(\<And>j r. msg \<noteq> CallResponse j r) \<Longrightarrow> foldl (\<lambda>t' i. handler i msg t') t hs = t"
  by (induction hs arbitrary: t) (simp_all add: handler_not_response del: handler.simps)

lemma handlers_response_frame:
  "distinct hs \<Longrightarrow> j \<in> set hs \<Longrightarrow>
   foldl (\<lambda>t' i. handler i (CallResponse j r) t') t hs = handler j (CallResponse j r) t"
proof (induction hs arbitrary: t)
  case Nil
  then show ?case by simp
next
  case (Cons h hs)
  show ?case
  proof (cases "h = j")
    case True
    then have "j \<notin> set hs" using Cons.prems by simp
    then show ?thesis using True by (simp add: handlers_other_frame del: handler.simps)
  next
    case False
    then have "j \<in> set hs" "distinct hs" using Cons.prems by auto
    then show ?thesis using False Cons.IH by (simp add: handler_other del: handler.simps)
  qed
qed

lemma on_frame_response:
  "distinct (handlers t) \<Longrightarrow>
   on_frame (CallResponse j r) t
     = (if j \<in> set (handlers t) then handler j (CallResponse j r) t else t)"
  by (simp add: on_frame_def handlers_other_frame handlers_response_frame del: handler.simps)

lemma on_frame_event:
  "(\<And>j r. msg \<noteq> CallResponse j r) \<Longrightarrow> on_frame msg t = t"
  by (simp add: on_frame_def handlers_not_response del: handler.simps)

lemma fst_filter_neq: "fst ` set (filter (\<lambda>(k, m). k \<noteq> i) xs) = fst ` set xs - {i}"
  by (induction xs) auto

lemma distinct_fst_filter: "distinct (map fst xs) \<Longrightarrow> distinct (map fst (filter P xs))"
  by (induction xs) auto

lemma settle_inv:
  assumes "transport_inv t" "i \<in> set (handlers t)"
  shows "transport_inv (t\<lparr>timers := filter (\<lambda>(k, m). k \<noteq> i) (timers t),
             handlers := filter (\<lambda>k. k \<noteq> i) (handlers t),
             settle_log := settle_log t @ [(i, r)]\<rparr>)"
proof -
  from assms have ni: "i \<notin> fst ` set (settle_log t)"
    unfolding transport_inv_def by blast
  from assms(1) have
    d1: "distinct (handlers t)" and d2: "distinct (map fst (timers t))"
    and d3: "distinct (map fst (settle_log t))"
    and e1: "set (handlers t) = fst ` set (timers t)"
    and e2: "set (timers t) \<subseteq> set (sent t)"
    and e3: "set (handlers t) \<inter> fst ` set (settle_log t) = {}"
    and e4: "set (handlers t) \<union> fst ` set (settle_log t) = {1..<idCounter t}"
    and e5: "1 \<le> idCounter t"
    unfolding transport_inv_def by blast+
  have c1: "distinct (filter (\<lambda>k. k \<noteq> i) (handlers t))" using d1 by simp
  have c2: "distinct (map fst (filter (\<lambda>(k, m). k \<noteq> i) (timers t)))"
    using d2 by (rule distinct_fst_filter)
  have c3: "distinct (map fst (settle_log t @ [(i, r)]))" using d3 ni by simp
  have c4: "set (filter (\<lambda>k. k \<noteq> i) (handlers t))
      = fst ` set (filter (\<lambda>(k, m). k \<noteq> i) (timers t))"
    using e1 by (auto simp: fst_filter_neq)
  have c5: "set (filter (\<lambda>(k, m). k \<noteq> i) (timers t)) \<subseteq> set (sent t)"
    using e2 by auto
  have c6: "set (filter (\<lambda>k. k \<noteq> i) (handlers t)) \<inter> fst ` set (settle_log t @ [(i, r)]) = {}"
    using e3 by auto
  have c7: "set (filter (\<lambda>k. k \<noteq> i) (handlers t)) \<union> fst ` set (settle_log t @ [(i, r)])
      = {1..<idCounter t}"
    using e4 assms(2) by auto
  show ?thesis
    unfolding transport_inv_def using c1 c2 c3 c4 c5 c6 c7 e5 by simp
qed

lemma call_inv: "transport_inv t \<Longrightarrow> transport_inv (snd (call method t))"
proof -
  assume inv: "transport_inv t"
  then have
    d1: "distinct (handlers t)" and d2: "distinct (map fst (timers t))"
    and d3: "distinct (map fst (settle_log t))"
    and e1: "set (handlers t) = fst ` set (timers t)"
    and e2: "set (timers t) \<subseteq> set (sent t)"
    and e3: "set (handlers t) \<inter> fst ` set (settle_log t) = {}"
    and e4: "set (handlers t) \<union> fst ` set (settle_log t) = {1..<idCounter t}"
    and e5: "1 \<le> idCounter t"
    unfolding transport_inv_def by blast+
  let ?i = "idCounter t"
  from e4 have fresh: "?i \<notin> set (handlers t)" "?i \<notin> fst ` set (settle_log t)" by auto
  have c1: "distinct (handlers t @ [?i])" using d1 fresh by simp
  have c2: "distinct (map fst (timers t @ [(?i, method)]))" using d2 fresh e1 by simp
  have c4: "set (handlers t @ [?i]) = fst ` set (timers t @ [(?i, method)])" using e1 by simp
  have c5: "set (timers t @ [(?i, method)]) \<subseteq> set (sent t @ [(?i, method)])" using e2 by auto
  have c6: "set (handlers t @ [?i]) \<inter> fst ` set (settle_log t) = {}" using e3 fresh by simp
  have c7: "set (handlers t @ [?i]) \<union> fst ` set (settle_log t) = {1..<?i + 1}"
    using e4 e5 by auto
  show ?thesis
    unfolding transport_inv_def call_def Let_def using c1 c2 d3 c4 c5 c6 c7 by simp
qed

lemma on_frame_inv: "transport_inv t \<Longrightarrow> transport_inv (on_frame msg t)"
proof (cases msg)
  case (CallResponse j r)
  assume inv: "transport_inv t"
  then have d: "distinct (handlers t)" by (simp add: transport_inv_def)
  show ?thesis
    using settle_inv [OF inv, of j] inv by (simp add: CallResponse on_frame_response [OF d])
qed (simp_all add: on_frame_event)

lemma on_timeout_inv: "transport_inv t \<Longrightarrow> transport_inv (on_timeout i t)"
proof -
  assume inv: "transport_inv t"
  show ?thesis
  proof (cases "map_of (timers t) i")
    case None
    then show ?thesis using inv by (simp add: on_timeout_def)
  next
    case (Some m)
    then have "i \<in> fst ` set (timers t)" by (metis map_of_eq_None_iff option.distinct(1))
    then have "i \<in> set (handlers t)" using inv by (simp add: transport_inv_def)
    then show ?thesis using settle_inv [OF inv] Some by (simp add: on_timeout_def)
  qed
qed

lemma transport_step_inv: "transport_inv t \<Longrightarrow> transport_inv (transport_step t ev)"
  by (cases ev) (simp_all add: call_inv on_frame_inv on_timeout_inv)

lemma new_transport_inv: "transport_inv new_transport"
  by (simp add: transport_inv_def new_transport_def)

lemma foldl_transport_inv: "transport_inv t \<Longrightarrow> transport_inv (foldl transport_step t evs)"
  by (induction evs arbitrary: t) (auto simp: transport_step_inv)

lemma run_transport_inv: "transport_inv (run_transport evs)"
  by (simp add: run_transport_def foldl_transport_inv new_transport_inv)

lemma fst_in_image: "(i, b) \<in> set xs \<Longrightarrow> i \<in> fst ` set xs"
  by force

lemma filter_key_empty: "i \<notin> fst ` set xs \<Longrightarrow> filter (\<lambda>(k, r). k = i) xs = []"
  by (auto simp: filter_empty_conv dest: fst_in_image)

lemma settlements_at_most_once:
  "distinct (map fst xs) \<Longrightarrow> length (filter (\<lambda>(k, r). k = i) xs) \<le> 1"
proof (induction xs)
  case Nil
  show ?case by simp
next
  case (Cons x xs)
  obtain k r where x: "x = (k, r)" by (cases x)
  show ?case
  proof (cases "k = i")
    case True
    with Cons.prems x have "i \<notin> fst ` set xs" by auto
    then have "filter (\<lambda>(k, r). k = i) xs = []" by (rule filter_key_empty)
    with True x show ?thesis by simp
  next
    case False
    with Cons x show ?thesis by simp
  qed
qed

lemma settlements_empty_iff: "settlements t i = [] \<longleftrightarrow> i \<notin> fst ` set (settle_log t)"
proof
  assume "settlements t i = []"
  then show "i \<notin> fst ` set (settle_log t)"
    by (force simp: settlements_def filter_empty_conv)
next
  assume "i \<notin> fst ` set (settle_log t)"
  then show "settlements t i = []" by (simp add: settlements_def filter_key_empty)
qed

lemma settlements_snoc:
  "i \<notin> fst ` set (settle_log t) \<Longrightarrow>
   settlements (t\<lparr>timers := a, handlers := b, settle_log := settle_log t @ [(i, r)]\<rparr>) i = [r]"
  by (simp add: settlements_def filter_key_empty)

lemma pending_has_timer:
  assumes "transport_inv t" "pending t i"
  shows "\<exists>m. map_of (timers t) i = Some m \<and> (i, m) \<in> set (sent t)"
proof -
  from assms have "i \<in> fst ` set (timers t)" by (simp add: transport_inv_def pending_def)
  then obtain m where m: "map_of (timers t) i = Some m"
    by (metis map_of_eq_None_iff not_None_eq)
  then have "(i, m) \<in> set (timers t)" by (rule map_of_SomeD)
  then have "(i, m) \<in> set (sent t)" using assms(1) by (auto simp: transport_inv_def)
  with m show ?thesis by blast
qed

lemma pending_not_settled:
  assumes "transport_inv t" "pending t i"
  shows "i \<notin> fst ` set (settle_log t)"
  using assms unfolding transport_inv_def pending_def by blast

lemma response_settles:
  assumes "transport_inv t" "pending t i"
  shows "settlements (on_frame (CallResponse i r) t) i
           = [case r of Inl e \<Rightarrow> RpcFailed e | Inr v \<Rightarrow> Fulfilled v]
       \<and> \<not> pending (on_frame (CallResponse i r) t) i
       \<and> map_of (timers (on_frame (CallResponse i r) t)) i = None"
proof -
  from assms have d: "distinct (handlers t)" and h: "i \<in> set (handlers t)"
    by (simp_all add: transport_inv_def pending_def)
  have eq: "on_frame (CallResponse i r) t = handler i (CallResponse i r) t"
    using h by (simp add: on_frame_response [OF d] del: handler.simps)
  have ns: "i \<notin> fst ` set (settle_log t)" by (rule pending_not_settled [OF assms])
  have "i \<notin> fst ` set (filter (\<lambda>(k, m). k \<noteq> i) (timers t))"
    unfolding fst_filter_neq by simp
  then have t: "map_of (filter (\<lambda>(k, m). k \<noteq> i) (timers t)) i = None"
    unfolding map_of_eq_None_iff .
  show ?thesis
    unfolding eq using ns t by (simp add: settlements_snoc pending_def)
qed

lemma timeout_settles:
  assumes "transport_inv t" "pending t i" "map_of (timers t) i = Some m"
  shows "settlements (on_timeout i t) i = [TimedOut m]
       \<and> \<not> pending (on_timeout i t) i
       \<and> map_of (timers (on_timeout i t)) i = None"
proof -
  have ns: "i \<notin> fst ` set (settle_log t)" by (rule pending_not_settled [OF assms(1,2)])
  have "i \<notin> fst ` set (filter (\<lambda>(k, m). k \<noteq> i) (timers t))"
    unfolding fst_filter_neq by simp
  then have t: "map_of (filter (\<lambda>(k, m). k \<noteq> i) (timers t)) i = None"
    unfolding map_of_eq_None_iff .
  show ?thesis
    using ns t assms(3) by (simp add: on_timeout_def settlements_snoc pending_def)
qed

lemma settled_ignores:
  assumes "transport_inv t" "\<not> pending t i"
  shows "on_frame (CallResponse i r) t = t \<and> on_timeout i t = t"
proof -
  from assms have d: "distinct (handlers t)" and h: "i \<notin> set (handlers t)"
    by (simp_all add: transport_inv_def pending_def)
  have a: "on_frame (CallResponse i r) t = t"
    using h by (simp add: on_frame_response [OF d] del: handler.simps)
  from assms h have "i \<notin> fst ` set (timers t)" by (simp add: transport_inv_def)
  then have "map_of (timers t) i = None" by (simp add: map_of_eq_None_iff)
  then have b: "on_timeout i t = t" by (simp add: on_timeout_def)
  from a b show ?thesis by simp
qed

text \<open>
  What holds of one call in every transport reachable by calls, frames and timer
  expiries in any order.
\<close>

lemma reachable_settles_once:
  "length (settlements (run_transport evs) i) \<le> 1
   \<and> (pending (run_transport evs) i \<longleftrightarrow> map_of (timers (run_transport evs)) i \<noteq> None)
   \<and> (1 \<le> i \<and> i < idCounter (run_transport evs)
        \<longrightarrow> (pending (run_transport evs) i \<longleftrightarrow> settlements (run_transport evs) i = []))
   \<and> (pending (run_transport evs) i \<longrightarrow>
        (\<exists>m. map_of (timers (run_transport evs)) i = Some m
           \<and> (i, m) \<in> set (sent (run_transport evs))
           \<and> settlements (on_timeout i (run_transport evs)) i = [TimedOut m])
        \<and> \<not> pending (on_timeout i (run_transport evs)) i
        \<and> map_of (timers (on_timeout i (run_transport evs))) i = None
        \<and> settlements (on_frame (CallResponse i r) (run_transport evs)) i
             = [case r of Inl e \<Rightarrow> RpcFailed e | Inr v \<Rightarrow> Fulfilled v]
        \<and> \<not> pending (on_frame (CallResponse i r) (run_transport evs)) i
        \<and> map_of (timers (on_frame (CallResponse i r) (run_transport evs))) i = None)
   \<and> (\<not> pending (run_transport evs) i \<longrightarrow>
        on_frame (CallResponse i r) (run_transport evs) = run_transport evs
        \<and> on_timeout i (run_transport evs) = run_transport evs)"
proof -
  let ?t = "run_transport evs"
  have inv: "transport_inv ?t" by (rule run_transport_inv)
  have "distinct (map fst (settle_log ?t))" using inv by (simp add: transport_inv_def)
  then have c1: "length (settlements ?t i) \<le> 1"
    unfolding settlements_def length_map by (rule settlements_at_most_once)
  have c2: "pending ?t i \<longleftrightarrow> map_of (timers ?t) i \<noteq> None"
    using inv by (simp add: pending_def transport_inv_def map_of_eq_None_iff)
  have c3: "1 \<le> i \<and> i < idCounter ?t \<longrightarrow> (pending ?t i \<longleftrightarrow> settlements ?t i = [])"
  proof
    assume "1 \<le> i \<and> i < idCounter ?t"
    then have "i \<in> {1..<idCounter ?t}" by simp
    moreover have "set (handlers ?t) \<union> fst ` set (settle_log ?t) = {1..<idCounter ?t}"
      using inv unfolding transport_inv_def by blast
    ultimately have "i \<in> set (handlers ?t) \<union> fst ` set (settle_log ?t)" by blast
    moreover have "set (handlers ?t) \<inter> fst ` set (settle_log ?t) = {}"
      using inv unfolding transport_inv_def by blast
    ultimately show "pending ?t i \<longleftrightarrow> settlements ?t i = []"
      unfolding pending_def settlements_empty_iff by blast
  qed
  have c4: "pending ?t i \<longrightarrow>
        (\<exists>m. map_of (timers ?t) i = Some m \<and> (i, m) \<in> set (sent ?t)
           \<and> settlements (on_timeout i ?t) i = [TimedOut m])
        \<and> \<not> pending (on_timeout i ?t) i
        \<and> map_of (timers (on_timeout i ?t)) i = None
        \<and> settlements (on_frame (CallResponse i r) ?t) i
             = [case r of Inl e \<Rightarrow> RpcFailed e | Inr v \<Rightarrow> Fulfilled v]
        \<and> \<not> pending (on_frame (CallResponse i r) ?t) i
        \<and> map_of (timers (on_frame (CallResponse i r) ?t)) i = None"
  proof
    assume p: "pending ?t i"
    from pending_has_timer [OF inv p] obtain m
      where m: "map_of (timers ?t) i = Some m" "(i, m) \<in> set (sent ?t)" by blast
    note a = timeout_settles [OF inv p m(1)]
    note b = response_settles [OF inv p, of r]
    from m a b show "(\<exists>m. map_of (timers ?t) i = Some m \<and> (i, m) \<in> set (sent ?t)
           \<and> settlements (on_timeout i ?t) i = [TimedOut m])
        \<and> \<not> pending (on_timeout i ?t) i
        \<and> map_of (timers (on_timeout i ?t)) i = None
        \<and> settlements (on_frame (CallResponse i r) ?t) i
             = [case r of Inl e \<Rightarrow> RpcFailed e | Inr v \<Rightarrow> Fulfilled v]
        \<and> \<not> pending (on_frame (CallResponse i r) ?t) i
        \<and> map_of (timers (on_frame (CallResponse i r) ?t)) i = None"
      by blast
  qed
  have c5: "\<not> pending ?t i \<longrightarrow>
        on_frame (CallResponse i r) ?t = ?t \<and> on_timeout i ?t = ?t"
    using settled_ignores [OF inv] by blast
  from c1 c2 c3 c4 c5 show ?thesis by blast
qed

lemma call_registers:
  assumes inv: "transport_inv t"
  shows "fst (call method t) = idCounter t
     \<and> \<not> pending t (idCounter t)
     \<and> settlements t (idCounter t) = []
     \<and> pending (snd (call method t)) (idCounter t)
     \<and> map_of (timers (snd (call method t))) (idCounter t) = Some method
     \<and> (idCounter t, method) \<in> set (sent (snd (call method t)))
     \<and> settlements (snd (call method t)) (idCounter t) = []
     \<and> idCounter (snd (call method t)) = idCounter t + 1
     \<and> (pending t i \<longrightarrow> pending (snd (call method t)) i)
     \<and> settlements (snd (call method t)) i = settlements t i"
proof -
  have e4: "set (handlers t) \<union> fst ` set (settle_log t) = {1..<idCounter t}"
    and e1: "set (handlers t) = fst ` set (timers t)"
    using inv unfolding transport_inv_def by blast+
  from e4 have fresh: "idCounter t \<notin> set (handlers t)" "idCounter t \<notin> fst ` set (settle_log t)"
    by auto
  from fresh e1 have "idCounter t \<notin> fst ` set (timers t)" by simp
  then have none: "map_of (timers t) (idCounter t) = None" by (simp add: map_of_eq_None_iff)
  have s0: "settlements t (idCounter t) = []"
    using fresh by (simp add: settlements_empty_iff)
  have m: "map_of (timers t @ [(idCounter t, method)]) (idCounter t) = Some method"
    using none by (simp add: map_add_def)
  show ?thesis
    using fresh s0 m by (simp add: call_def Let_def pending_def settlements_def)
qed

lemma idCounter_counts_calls:
  "idCounter (foldl transport_step t evs)
     = idCounter t + length (filter (\<lambda>ev. \<exists>method. ev = Call method) evs)"
proof (induction evs arbitrary: t)
  case Nil
  show ?case by simp
next
  case (Cons ev evs)
  have step: "idCounter (transport_step t ev)
      = idCounter t + (if \<exists>method. ev = Call method then 1 else 0)"
  proof (cases ev)
    case (Call m)
    then show ?thesis by (simp add: call_def Let_def)
  next
    case (Frame msg)
    have "idCounter (foldl (\<lambda>t' i. handler i msg t') t hs) = idCounter t" for hs
    proof (induction hs arbitrary: t)
      case Nil
      show ?case by simp
    next
      case (Cons h hs)
      have "idCounter (handler h msg t) = idCounter t" by (cases msg) simp_all
      then show ?case using Cons.IH [of "handler h msg t"] by (simp del: handler.simps)
    qed
    then show ?thesis using Frame by (simp add: on_frame_def del: handler.simps)
  next
    case (TimerElapsed i)
    then show ?thesis by (simp add: on_timeout_def split: option.splits)
  qed
  show ?case using Cons.IH [of "transport_step t ev"] step by simp
qed

lemma run_transport_snoc:
  "run_transport (evs @ [ev]) = transport_step (run_transport evs) ev"
  by (simp add: run_transport_def)

lemma handler_settle_log:
  "\<exists>ys. settle_log (handler h msg t) = settle_log t @ ys"
  by (cases msg) simp_all

lemma handlers_settle_log:
  "\<exists>ys. settle_log (foldl (\<lambda>t' i. handler i msg t') t hs) = settle_log t @ ys"
proof (induction hs arbitrary: t)
  case Nil
  show ?case by simp
next
  case (Cons h hs)
  obtain ys where a: "settle_log (handler h msg t) = settle_log t @ ys"
    using handler_settle_log by blast
  obtain zs where b: "settle_log (foldl (\<lambda>t' i. handler i msg t') (handler h msg t) hs)
      = settle_log (handler h msg t) @ zs"
    using Cons.IH by blast
  show ?case using a b by (simp del: handler.simps)
qed

lemma transport_step_settle_log:
  "\<exists>ys. settle_log (transport_step t ev) = settle_log t @ ys"
proof (cases ev)
  case (Call m)
  then show ?thesis by (simp add: call_def Let_def)
next
  case (Frame msg)
  then show ?thesis using handlers_settle_log [of msg t "handlers t"]
    by (simp add: on_frame_def del: handler.simps)
next
  case (TimerElapsed i)
  then show ?thesis by (simp add: on_timeout_def split: option.splits)
qed

lemma foldl_transport_settle_log:
  "\<exists>ys. settle_log (foldl transport_step t evs) = settle_log t @ ys"
proof (induction evs arbitrary: t)
  case Nil
  show ?case by simp
next
  case (Cons ev evs)
  obtain ys where a: "settle_log (transport_step t ev) = settle_log t @ ys"
    using transport_step_settle_log by blast
  obtain zs where b: "settle_log (foldl transport_step (transport_step t ev) evs)
      = settle_log (transport_step t ev) @ zs"
    using Cons.IH by blast
  show ?case using a b by simp
qed

lemma run_transport_append:
  "run_transport (evs @ evs') = foldl transport_step (run_transport evs) evs'"
  by (simp add: run_transport_def)

lemma settlement_final:
  assumes "settlements (run_transport evs) i = [x]"
  shows "settlements (run_transport (evs @ evs')) i = [x]"
proof -
  obtain ys where ys: "settle_log (run_transport (evs @ evs')) = settle_log (run_transport evs) @ ys"
    unfolding run_transport_append using foldl_transport_settle_log by blast
  have inv: "transport_inv (run_transport (evs @ evs'))" by (rule run_transport_inv)
  then have "distinct (map fst (settle_log (run_transport (evs @ evs'))))"
    by (simp add: transport_inv_def)
  then have "length (filter (\<lambda>(k, r). k = i) (settle_log (run_transport (evs @ evs')))) \<le> 1"
    by (rule settlements_at_most_once)
  then have le: "length (settlements (run_transport (evs @ evs')) i) \<le> 1"
    by (simp add: settlements_def)
  have split: "settlements (run_transport (evs @ evs')) i
      = settlements (run_transport evs) i @ map snd (filter (\<lambda>(k, r). k = i) ys)"
    by (simp add: settlements_def ys)
  from le split assms show ?thesis by simp
qed

lemma others_keep_pending:
  assumes inv: "transport_inv t" and p: "pending t i" and ne: "j \<noteq> i"
  shows "pending (on_frame (CallResponse j r) t) i \<and> pending (on_timeout j t) i"
proof -
  from inv have d: "distinct (handlers t)" by (simp add: transport_inv_def)
  have a: "pending (on_frame (CallResponse j r) t) i"
    using p ne by (simp add: on_frame_response [OF d] pending_def)
  have b: "pending (on_timeout j t) i"
    using p ne by (simp add: on_timeout_def pending_def split: option.splits)
  from a b show ?thesis by simp
qed

text \<open>
  C5: in every transport reachable by calls, frames and timer expiries in any order, a
  call has at most one settlement; its handler is registered exactly while its timer is
  armed; an issued call is either pending or settled. For a pending call, the timer's
  expiry settles it with the timeout error of its method and a response with its id
  settles it with the result or the error payload, and either removes both the handler
  and the timer. Once a call is not pending, a further response with its id and a late
  timer leave the transport as it is, and a settlement once made stays the only one
  whatever happens later. Every \<^verbatim>\<open>call\<close> takes the next id, one more than the number of
  calls before it, which was neither pending nor settled; after the call that id is
  pending with its timer armed for the method and its frame sent, while the calls
  pending before are still pending and no settlement has changed. A response or a timer
  for another id, and a frame that is no response, leave a pending call pending.
\<close>

theorem call_settles_once:
  "length (settlements (run_transport evs) i) \<le> 1
   \<and> (pending (run_transport evs) i \<longleftrightarrow> map_of (timers (run_transport evs)) i \<noteq> None)
   \<and> (1 \<le> i \<and> i < idCounter (run_transport evs)
        \<longrightarrow> (pending (run_transport evs) i \<longleftrightarrow> settlements (run_transport evs) i = []))
   \<and> (pending (run_transport evs) i \<longrightarrow>
        (\<exists>m. map_of (timers (run_transport evs)) i = Some m
           \<and> (i, m) \<in> set (sent (run_transport evs))
           \<and> settlements (on_timeout i (run_transport evs)) i = [TimedOut m])
        \<and> \<not> pending (on_timeout i (run_transport evs)) i
        \<and> map_of (timers (on_timeout i (run_transport evs))) i = None
        \<and> settlements (on_frame (CallResponse i r) (run_transport evs)) i
             = [case r of Inl e \<Rightarrow> RpcFailed e | Inr v \<Rightarrow> Fulfilled v]
        \<and> \<not> pending (on_frame (CallResponse i r) (run_transport evs)) i
        \<and> map_of (timers (on_frame (CallResponse i r) (run_transport evs))) i = None)
   \<and> (\<not> pending (run_transport evs) i \<longrightarrow>
        on_frame (CallResponse i r) (run_transport evs) = run_transport evs
        \<and> on_timeout i (run_transport evs) = run_transport evs)
   \<and> fst (call meth (run_transport evs)) = idCounter (run_transport evs)
   \<and> idCounter (run_transport evs)
       = 1 + length (filter (\<lambda>ev. case ev of Call m \<Rightarrow> True | _ \<Rightarrow> False) evs)
   \<and> \<not> pending (run_transport evs) (idCounter (run_transport evs))
   \<and> settlements (run_transport evs) (idCounter (run_transport evs)) = []
   \<and> run_transport (evs @ [Call meth]) = snd (call meth (run_transport evs))
   \<and> pending (run_transport (evs @ [Call meth])) (idCounter (run_transport evs))
   \<and> map_of (timers (run_transport (evs @ [Call meth]))) (idCounter (run_transport evs))
       = Some meth
   \<and> (idCounter (run_transport evs), meth) \<in> set (sent (run_transport (evs @ [Call meth])))
   \<and> settlements (run_transport (evs @ [Call meth])) (idCounter (run_transport evs)) = []
   \<and> (pending (run_transport evs) i \<longrightarrow> pending (run_transport (evs @ [Call meth])) i)
   \<and> settlements (run_transport (evs @ [Call meth])) i = settlements (run_transport evs) i
   \<and> (pending (run_transport evs) i \<longrightarrow> j \<noteq> i \<longrightarrow>
        pending (on_frame (CallResponse j r) (run_transport evs)) i
        \<and> pending (on_timeout j (run_transport evs)) i)
   \<and> ((\<forall>k q. msg \<noteq> CallResponse k q) \<longrightarrow> on_frame msg (run_transport evs) = run_transport evs)
   \<and> (settlements (run_transport evs) i = [x] \<longrightarrow>
        settlements (run_transport (evs @ evs')) i = [x])"
proof -
  let ?t = "run_transport evs"
  have inv: "transport_inv ?t" by (rule run_transport_inv)
  note old = reachable_settles_once [of evs i r]
  note reg = call_registers [OF inv, of meth i]
  have snoc: "run_transport (evs @ [Call meth]) = snd (call meth ?t)"
    by (simp add: run_transport_snoc)
  have f: "(\<lambda>ev. \<exists>meth. ev = Call meth) = (\<lambda>ev. case ev of Call m \<Rightarrow> True | _ \<Rightarrow> False)"
    by (rule ext) (simp split: transport_event.splits)
  have cnt: "idCounter ?t = 1 + length (filter (\<lambda>ev. case ev of Call m \<Rightarrow> True | _ \<Rightarrow> False) evs)"
    unfolding run_transport_def
    using idCounter_counts_calls [of new_transport evs]
    by (simp add: f new_transport_def)
  have keep: "pending ?t i \<longrightarrow> j \<noteq> i \<longrightarrow>
        pending (on_frame (CallResponse j r) ?t) i \<and> pending (on_timeout j ?t) i"
    using others_keep_pending [OF inv] by blast
  have ev: "(\<forall>k q. msg \<noteq> CallResponse k q) \<longrightarrow> on_frame msg ?t = ?t"
    using on_frame_event [of msg ?t] by blast
  have fin: "settlements ?t i = [x] \<longrightarrow> settlements (run_transport (evs @ evs')) i = [x]"
    using settlement_final by blast
  have new: "fst (call meth ?t) = idCounter ?t
     \<and> \<not> pending ?t (idCounter ?t)
     \<and> settlements ?t (idCounter ?t) = []
     \<and> pending (run_transport (evs @ [Call meth])) (idCounter ?t)
     \<and> map_of (timers (run_transport (evs @ [Call meth]))) (idCounter ?t) = Some meth
     \<and> (idCounter ?t, meth) \<in> set (sent (run_transport (evs @ [Call meth])))
     \<and> settlements (run_transport (evs @ [Call meth])) (idCounter ?t) = []
     \<and> (pending ?t i \<longrightarrow> pending (run_transport (evs @ [Call meth])) i)
     \<and> settlements (run_transport (evs @ [Call meth])) i = settlements ?t i"
    unfolding snoc using reg by simp
  note o1 = old [THEN conjunct1]
  note o2 = old [THEN conjunct2, THEN conjunct1]
  note o3 = old [THEN conjunct2, THEN conjunct2, THEN conjunct1]
  note o4 = old [THEN conjunct2, THEN conjunct2, THEN conjunct2, THEN conjunct1]
  note o5 = old [THEN conjunct2, THEN conjunct2, THEN conjunct2, THEN conjunct2]
  note n1 = new [THEN conjunct1]
  note n2 = new [THEN conjunct2, THEN conjunct1]
  note n3 = new [THEN conjunct2, THEN conjunct2, THEN conjunct1]
  note n4 = new [THEN conjunct2, THEN conjunct2, THEN conjunct2, THEN conjunct1]
  note n5 = new [THEN conjunct2, THEN conjunct2, THEN conjunct2, THEN conjunct2, THEN conjunct1]
  note n6 = new [THEN conjunct2, THEN conjunct2, THEN conjunct2, THEN conjunct2, THEN conjunct2,
      THEN conjunct1]
  note n7 = new [THEN conjunct2, THEN conjunct2, THEN conjunct2, THEN conjunct2, THEN conjunct2,
      THEN conjunct2, THEN conjunct1]
  note n8 = new [THEN conjunct2, THEN conjunct2, THEN conjunct2, THEN conjunct2, THEN conjunct2,
      THEN conjunct2, THEN conjunct2, THEN conjunct1]
  note n9 = new [THEN conjunct2, THEN conjunct2, THEN conjunct2, THEN conjunct2, THEN conjunct2,
      THEN conjunct2, THEN conjunct2, THEN conjunct2]
  show ?thesis
    using o1 o2 o3 o4 o5 n1 cnt n2 n3 snoc n4 n5 n6 n7 n8 n9 keep ev fin
    by (intro conjI)
qed

subsection \<open>Polling loop\<close>

lemma unsuccessful_cases:
  "unsuccessful r \<Longrightarrow> r = Resolved NullSnapshot \<or> (\<exists>err. r = Resolved (ErrorSnapshot err))"
  by (cases r rule: unsuccessful.cases) auto

lemma successful_cases: "successful r \<Longrightarrow> \<exists>snap. r = Resolved (Snapshot snap)"
  by (cases r rule: successful.cases) auto

lemma poll_tick_fail_below:
  assumes "cdpConnection s = Some cdp" "unsuccessful (capture env cdp)"
    "snapshotFailCount s + 1 < MAX_SNAPSHOT_FAILS"
  shows "poll_tick env s = (s\<lparr>snapshotFailCount := snapshotFailCount s + 1\<rparr>, [])"
  using assms unsuccessful_cases [OF assms(2)]
  by (auto simp: poll_tick_def poll_try_def)

lemma poll_tick_fail_reach:
  assumes "cdpConnection s = Some cdp" "unsuccessful (capture env cdp)"
    "MAX_SNAPSHOT_FAILS \<le> snapshotFailCount s + 1"
  shows "poll_tick env s = (s\<lparr>cdpConnection := None, snapshotFailCount := 0\<rparr>, [])"
  using assms unsuccessful_cases [OF assms(2)]
  by (auto simp: poll_tick_def poll_try_def)

lemma poll_tick_success:
  assumes "cdpConnection s = Some cdp" "capture env cdp = Resolved (Snapshot snap)"
  shows "poll_tick env s =
     (if Some (hashString (html snap)) \<noteq> lastSnapshotHash s
      then (s\<lparr>snapshotFailCount := 0, lastSnapshot := Some snap,
               lastSnapshotHash := Some (hashString (html snap))\<rparr>,
            [broadcast_update (clients env) (now env)])
      else (s\<lparr>snapshotFailCount := 0\<rparr>, []))"
  using assms
  by (simp add: poll_tick_def poll_try_def Let_def MAX_SNAPSHOT_FAILS_def)

lemma poll_tick_success_keeps:
  assumes "cdpConnection s = Some cdp" "capture env cdp = Resolved (Snapshot snap)"
  shows "cdpConnection (fst (poll_tick env s)) = Some cdp
       \<and> lastSnapshotHash (fst (poll_tick env s)) = Some (hashString (html snap))"
  using poll_tick_success [OF assms] assms(1) by (simp split: if_splits)

text \<open>
  C4: on a tick of a connected session whose capture succeeds, if the fingerprint of the
  payload differs from the stored one, there is one broadcast, of the message
  \<^verbatim>\<open>{type: 'snapshot_update', timestamp}\<close> (which has no field for the payload) to the open
  client sockets, and the stored payload and fingerprint are replaced; if it is equal,
  there is no broadcast and both stay as they are. Two consecutive ticks that capture the
  same payload broadcast on the first only, and on the first exactly when the stored
  fingerprint differed.
\<close>

theorem broadcast_iff_fingerprint_differs:
  "(cdpConnection s = Some cdp \<longrightarrow> capture env cdp = Resolved (Snapshot snap) \<longrightarrow>
      (Some (hashString (html snap)) \<noteq> lastSnapshotHash s \<longrightarrow>
         snd (poll_tick env s) =
           [Broadcast \<lparr>msg_type = ''snapshot_update'', timestamp = now env\<rparr>
              (map client_id (filter (\<lambda>client. readyState client = OPEN) (clients env)))]
         \<and> lastSnapshot (fst (poll_tick env s)) = Some snap
         \<and> lastSnapshotHash (fst (poll_tick env s)) = Some (hashString (html snap)))
      \<and> (Some (hashString (html snap)) = lastSnapshotHash s \<longrightarrow>
         snd (poll_tick env s) = []
         \<and> lastSnapshot (fst (poll_tick env s)) = lastSnapshot s
         \<and> lastSnapshotHash (fst (poll_tick env s)) = lastSnapshotHash s))
   \<and> (cdpConnection s = Some cdp \<longrightarrow> capture env cdp = Resolved (Snapshot snap) \<longrightarrow>
      capture env' cdp = Resolved (Snapshot snap) \<longrightarrow>
      [snd (poll_tick env s), snd (poll_tick env' (fst (poll_tick env s)))] =
        [if Some (hashString (html snap)) \<noteq> lastSnapshotHash s
         then [broadcast_update (clients env) (now env)] else [], []])"
proof (intro conjI impI)
  assume a: "cdpConnection s = Some cdp" "capture env cdp = Resolved (Snapshot snap)"
  note t = poll_tick_success [OF a]
  {
    assume d: "Some (hashString (html snap)) \<noteq> lastSnapshotHash s"
    show "snd (poll_tick env s) =
           [Broadcast \<lparr>msg_type = ''snapshot_update'', timestamp = now env\<rparr>
              (map client_id (filter (\<lambda>client. readyState client = OPEN) (clients env)))]"
      using t d by (simp add: broadcast_update_def)
    show "lastSnapshot (fst (poll_tick env s)) = Some snap" using t d by simp
    show "lastSnapshotHash (fst (poll_tick env s)) = Some (hashString (html snap))"
      using t d by simp
  }
  {
    assume e: "Some (hashString (html snap)) = lastSnapshotHash s"
    show "snd (poll_tick env s) = []" using t e by simp
    show "lastSnapshot (fst (poll_tick env s)) = lastSnapshot s" using t e by simp
    show "lastSnapshotHash (fst (poll_tick env s)) = lastSnapshotHash s" using t e by simp
  }
next
  assume a: "cdpConnection s = Some cdp" "capture env cdp = Resolved (Snapshot snap)"
    and b: "capture env' cdp = Resolved (Snapshot snap)"
  let ?s1 = "fst (poll_tick env s)"
  note k = poll_tick_success_keeps [OF a]
  have c1: "cdpConnection ?s1 = Some cdp" using k by simp
  have h1: "lastSnapshotHash ?s1 = Some (hashString (html snap))" using k by simp
  have second: "snd (poll_tick env' ?s1) = []"
    using poll_tick_success [OF c1 b] h1 by simp
  have first: "snd (poll_tick env s) =
      (if Some (hashString (html snap)) \<noteq> lastSnapshotHash s
       then [broadcast_update (clients env) (now env)] else [])"
    using poll_tick_success [OF a] by simp
  show "[snd (poll_tick env s), snd (poll_tick env' (fst (poll_tick env s)))] =
        [if Some (hashString (html snap)) \<noteq> lastSnapshotHash s
         then [broadcast_update (clients env) (now env)] else [], []]"
    using first second by simp
qed

text \<open>
  C10: the fingerprint stored by a successful tick is \<^verbatim>\<open>hashString\<close> of the payload's
  \<^verbatim>\<open>html\<close> alone, and equal \<^verbatim>\<open>html\<close> strings have equal fingerprints. So when two
  consecutive successful captures have the same \<^verbatim>\<open>html\<close>, whatever their other fields,
  the second tick broadcasts nothing and leaves the stored payload and fingerprint as the
  first tick left them (the first payload, if the first tick stored it).
\<close>

theorem fingerprint_of_html_only:
  "cdpConnection s = Some cdp \<longrightarrow> capture env cdp = Resolved (Snapshot snap) \<longrightarrow>
   capture env' cdp = Resolved (Snapshot snap') \<longrightarrow> html snap' = html snap \<longrightarrow>
     hashString (html snap') = hashString (html snap)
     \<and> lastSnapshotHash (fst (poll_tick env s)) = Some (hashString (html snap))
     \<and> snd (poll_tick env' (fst (poll_tick env s))) = []
     \<and> lastSnapshot (fst (poll_tick env' (fst (poll_tick env s))))
         = lastSnapshot (fst (poll_tick env s))
     \<and> lastSnapshotHash (fst (poll_tick env' (fst (poll_tick env s))))
         = lastSnapshotHash (fst (poll_tick env s))
     \<and> (Some (hashString (html snap)) \<noteq> lastSnapshotHash s \<longrightarrow>
          lastSnapshot (fst (poll_tick env' (fst (poll_tick env s)))) = Some snap)"
proof (intro impI)
  assume a: "cdpConnection s = Some cdp" and b: "capture env cdp = Resolved (Snapshot snap)"
    and c: "capture env' cdp = Resolved (Snapshot snap')" and d: "html snap' = html snap"
  let ?s1 = "fst (poll_tick env s)"
  note k = poll_tick_success_keeps [OF a b]
  have c1: "cdpConnection ?s1 = Some cdp" using k by simp
  have h1: "lastSnapshotHash ?s1 = Some (hashString (html snap))" using k by simp
  have second: "poll_tick env' ?s1 = (?s1\<lparr>snapshotFailCount := 0\<rparr>, [])"
    using poll_tick_success [OF c1 c] h1 d by simp
  have first: "Some (hashString (html snap)) \<noteq> lastSnapshotHash s \<longrightarrow> lastSnapshot ?s1 = Some snap"
    using poll_tick_success [OF a b] by simp
  show "hashString (html snap') = hashString (html snap)
     \<and> lastSnapshotHash ?s1 = Some (hashString (html snap))
     \<and> snd (poll_tick env' ?s1) = []
     \<and> lastSnapshot (fst (poll_tick env' ?s1)) = lastSnapshot ?s1
     \<and> lastSnapshotHash (fst (poll_tick env' ?s1)) = lastSnapshotHash ?s1
     \<and> (Some (hashString (html snap)) \<noteq> lastSnapshotHash s \<longrightarrow>
          lastSnapshot (fst (poll_tick env' ?s1)) = Some snap)"
    using d h1 second first by simp
qed

text \<open>
  C9: in every state \<^verbatim>\<open>getCDPStatus\<close> returns a record of a boolean and two counts: with
  no session, \<^verbatim>\<open>connected\<close> is false and \<^verbatim>\<open>contextCount\<close> is 0; with a session,
  \<^verbatim>\<open>connected\<close> is true and \<^verbatim>\<open>contextCount\<close> is the number of its contexts;
  \<^verbatim>\<open>retryCount\<close> is the retry counter. In particular once the switch handler has
  cleared the session, which a connection that then fails with some cause leaves as it
  is (the cause goes into the reply), and after a tick that ended without a session, the
  status reports \<^verbatim>\<open>connected: false\<close> and 0 contexts, and nothing of the cause.
\<close>

theorem status_well_formed:
  "(cdpConnection s = None \<longrightarrow>
      getCDPStatus s = \<lparr>connected = False, contextCount = 0, retryCount = cdpRetryCount s\<rparr>)
   \<and> (cdpConnection s = Some cdp \<longrightarrow>
      getCDPStatus s =
        \<lparr>connected = True, contextCount = length (getContexts cdp), retryCount = cdpRetryCount s\<rparr>)
   \<and> (find (\<lambda>i. i_id i = targetId) (discoveredInstances s) = Some target \<longrightarrow>
      getCDPStatus (fst (switch_found env targetId s))
        = \<lparr>connected = False, contextCount = 0, retryCount = cdpRetryCount s\<rparr>
      \<and> (connectCDP (sw_connect env (i_url target)) (i_url target) = Rejected e \<longrightarrow>
           switch_settled env target (fst (switch_found env targetId s))
             = (fst (switch_found env targetId s), Finished, [], [ServerError (message e)])))
   \<and> (cdpConnection (fst (poll_tick tenv s)) = None \<longrightarrow>
      connected (getCDPStatus (fst (poll_tick tenv s))) = False
      \<and> contextCount (getCDPStatus (fst (poll_tick tenv s))) = 0)"
proof (intro conjI impI)
  assume "cdpConnection s = None"
  then show "getCDPStatus s = \<lparr>connected = False, contextCount = 0, retryCount = cdpRetryCount s\<rparr>"
    by (simp add: getCDPStatus_def)
next
  assume "cdpConnection s = Some cdp"
  then show "getCDPStatus s =
        \<lparr>connected = True, contextCount = length (getContexts cdp), retryCount = cdpRetryCount s\<rparr>"
    by (simp add: getCDPStatus_def)
next
  assume f: "find (\<lambda>i. i_id i = targetId) (discoveredInstances s) = Some target"
  then show "getCDPStatus (fst (switch_found env targetId s))
        = \<lparr>connected = False, contextCount = 0, retryCount = cdpRetryCount s\<rparr>"
    by (simp add: switch_found_def getCDPStatus_def)
  assume "connectCDP (sw_connect env (i_url target)) (i_url target) = Rejected e"
  then show "switch_settled env target (fst (switch_found env targetId s))
             = (fst (switch_found env targetId s), Finished, [], [ServerError (message e)])"
    by (simp add: switch_settled_def)
next
  assume n: "cdpConnection (fst (poll_tick tenv s)) = None"
  show "connected (getCDPStatus (fst (poll_tick tenv s))) = False"
    using n by (simp add: getCDPStatus_def)
  show "contextCount (getCDPStatus (fst (poll_tick tenv s))) = 0"
    using n by (simp add: getCDPStatus_def)
qed


lemma captureSnapshot_resolves: "\<exists>r. captureSnapshot rpc cdp = Resolved r"
  by (simp add: captureSnapshot_def split: option.splits)

lemma capture_context_rejected:
  "probe_call rpc (ctx_id ctx) = Rejected e \<Longrightarrow> capture_context rpc acc ctx = acc"
  by (cases acc) (simp add: capture_context_def)

lemma captureSnapshot_dead_transport:
  assumes "\<forall>ctx \<in> set (getContexts cdp). \<exists>e. probe_call rpc (ctx_id ctx) = Rejected e"
  shows "captureSnapshot rpc cdp = Resolved NullSnapshot"
proof -
  have "foldl (capture_context rpc) acc cs = acc"
    if "\<forall>ctx \<in> set cs. \<exists>e. probe_call rpc (ctx_id ctx) = Rejected e" for cs acc
    using that
  proof (induction cs)
    case Nil
    show ?case by simp
  next
    case (Cons c cs)
    then obtain e where "probe_call rpc (ctx_id c) = Rejected e" by auto
    then have "capture_context rpc acc c = acc" by (rule capture_context_rejected)
    then show ?case using Cons by simp
  qed
  then show ?thesis using assms by (simp add: captureSnapshot_def)
qed

lemma poll_catch_transport_closed:
  "message err = Some m \<Longrightarrow> js_includes m ''WebSocket'' \<or> js_includes m ''close'' \<Longrightarrow>
   poll_catch err s = s\<lparr>snapshotFailCount := snapshotFailCount s + 1, cdpConnection := None\<rparr>"
  by (simp add: poll_catch_def)

text \<open>
  C7: a tick on a session whose socket has closed, so that every call of the capture
  probe rejects with the error of the closed socket. \<^verbatim>\<open>captureSnapshot\<close> catches each
  rejection, the tick sees a null capture, counts one failure and keeps the session; the
  \<^verbatim>\<open>catch\<close> clause of the tick, which would have dropped the session for this error, is
  not reached.
\<close>

theorem dead_transport_tick_keeps_session:
  "poll_tick ex_dead_tick ex_connected = (ex_connected\<lparr>snapshotFailCount := 1\<rparr>, [])
   \<and> cdpConnection (fst (poll_tick ex_dead_tick ex_connected)) = Some ex_cdp
   \<and> cdpConnection (poll_catch ex_ws_closed ex_connected) = None"
proof -
  have a: "poll_tick ex_dead_tick ex_connected = (ex_connected\<lparr>snapshotFailCount := 1\<rparr>, [])"
    by (simp add: poll_tick_def ex_dead_tick_def ex_tick_def ex_connected_def ex_cdp_def
      captureSnapshot_def capture_context_def ex_dead_rpc_def poll_try_def initial_state_def
      MAX_SNAPSHOT_FAILS_def)
  have b: "cdpConnection (ex_connected\<lparr>snapshotFailCount := 1\<rparr>) = Some ex_cdp"
    by (simp add: ex_connected_def)
  have c: "cdpConnection (poll_catch ex_ws_closed ex_connected) = None"
    by (simp add: poll_catch_def ex_ws_closed_def)
  from a b c show ?thesis by simp
qed

subsection \<open>Schedules of the polling loop\<close>

lemma poll_settled_unsuccessful:
  assumes "unsuccessful r"
  shows "poll_settled r cs t s =
     (if snapshotFailCount s + 1 < MAX_SNAPSHOT_FAILS
      then s\<lparr>snapshotFailCount := snapshotFailCount s + 1\<rparr>
      else s\<lparr>cdpConnection := None, snapshotFailCount := 0\<rparr>, [])"
  using unsuccessful_cases [OF assms]
  by (auto simp: poll_settled_def poll_try_def)

lemma poll_settled_successful:
  assumes "successful r"
  shows "snapshotFailCount (fst (poll_settled r cs t s)) = 0
       \<and> cdpConnection (fst (poll_settled r cs t s)) = cdpConnection s"
  using successful_cases [OF assms]
  by (auto simp: poll_settled_def poll_try_def Let_def MAX_SNAPSHOT_FAILS_def)

lemma poll_tick_settled:
  "cdpConnection s = Some cdp \<Longrightarrow>
   poll_tick env s = poll_settled (capture env cdp) (clients env) (now env) s"
  by (simp add: poll_tick_def poll_settled_def)

lemma tick_fires_vars: "vars (server_step c (TickFires env)) = vars c"
  by simp

lemma resume_capture_vars:
  "i < length (tasks c) \<Longrightarrow> tasks c ! i = TickCapture env cdp \<Longrightarrow>
   vars (server_step c (Resume i)) = fst (poll_settled (capture env cdp) (clients env) (now env) (vars c))"
  by (simp split: prod.splits)

lemma run_server_Cons: "run_server (e # evs) c = run_server evs (server_step c e)"
  by (simp add: run_server_def)

lemma run_server_Nil: "run_server [] c = c"
  by (simp add: run_server_def)

lemma polling_resume:
  assumes "polling_only c (Resume i # evs)"
  shows "\<exists>env cdp. i < length (tasks c) \<and> tasks c ! i = TickCapture env cdp
     \<and> polling_only (server_step c (Resume i)) evs
     \<and> settled c (Resume i # evs) = capture env cdp # settled (server_step c (Resume i)) evs"
proof -
  from assms have i: "i < length (tasks c)"
    and p: "polling_only (server_step c (Resume i)) evs"
    and t: "(case tasks c ! i of TickCapture env cdp \<Rightarrow> True | _ \<Rightarrow> False)"
    by (simp_all del: server_step.simps)
  from t obtain env cdp where tk: "tasks c ! i = TickCapture env cdp"
    by (cases "tasks c ! i") simp_all
  have "settled c (Resume i # evs) = capture env cdp # settled (server_step c (Resume i)) evs"
    using i tk by (simp del: server_step.simps)
  with i tk p show ?thesis
    by (auto simp del: server_step.simps settled.simps polling_only.simps)
qed

lemma quiet_schedule:
  "polling_only c evs \<Longrightarrow> settled c evs = [] \<Longrightarrow>
   vars (run_server evs c) = vars c \<and> teardowns c evs = 0"
proof (induction evs arbitrary: c)
  case Nil
  show ?case by (simp add: run_server_Nil)
next
  case (Cons e evs)
  show ?case
  proof (cases e)
    case (TickFires env)
    let ?c' = "server_step c (TickFires env)"
    have "polling_only ?c' evs" "settled ?c' evs = []"
      using Cons.prems TickFires by (simp_all del: server_step.simps)
    then have "vars (run_server evs ?c') = vars ?c' \<and> teardowns ?c' evs = 0"
      by (rule Cons.IH)
    then show ?thesis
      using TickFires by (auto simp add: run_server_Cons tick_fires_vars simp del: server_step.simps)
  next
    case (Request env targetId)
    then show ?thesis using Cons.prems by simp
  next
    case (Resume i)
    from polling_resume [OF Cons.prems(1) [unfolded Resume]]
    have "settled c (Resume i # evs) \<noteq> []"
      by (elim exE conjE) (simp del: server_step.simps settled.simps)
    then show ?thesis using Cons.prems(2) Resume by (simp del: server_step.simps settled.simps)
  qed
qed

lemma failures_below_threshold:
  "polling_only c evs \<Longrightarrow> cdpConnection (vars c) = Some cdp \<Longrightarrow>
   \<forall>r \<in> set (settled c evs). unsuccessful r \<Longrightarrow>
   snapshotFailCount (vars c) + length (settled c evs) < MAX_SNAPSHOT_FAILS \<Longrightarrow>
   vars (run_server evs c)
     = (vars c)\<lparr>snapshotFailCount := snapshotFailCount (vars c) + length (settled c evs)\<rparr>
   \<and> teardowns c evs = 0"
proof (induction evs arbitrary: c)
  case Nil
  show ?case by (simp add: run_server_Nil)
next
  case (Cons e evs)
  show ?case
  proof (cases e)
    case (TickFires env)
    let ?c' = "server_step c (TickFires env)"
    have v: "vars ?c' = vars c" by (rule tick_fires_vars)
    have s: "settled c (e # evs) = settled ?c' evs"
      using TickFires by (simp del: server_step.simps)
    have p': "polling_only ?c' evs" using Cons.prems(1) TickFires by (simp del: server_step.simps)
    have c': "cdpConnection (vars ?c') = Some cdp" using Cons.prems(2) v by simp
    have u': "\<forall>r \<in> set (settled ?c' evs). unsuccessful r" using Cons.prems(3) s by simp
    have l': "snapshotFailCount (vars ?c') + length (settled ?c' evs) < MAX_SNAPSHOT_FAILS"
      using Cons.prems(4) s v by simp
    have ih: "vars (run_server evs ?c')
        = (vars ?c')\<lparr>snapshotFailCount := snapshotFailCount (vars ?c') + length (settled ?c' evs)\<rparr>
      \<and> teardowns ?c' evs = 0"
      by (rule Cons.IH [OF p' c' u' l'])
    have td: "teardowns c (TickFires env # evs) = teardowns ?c' evs"
      using c' by (simp del: server_step.simps)
    show ?thesis
      unfolding TickFires run_server_Cons td s [unfolded TickFires] using ih v by simp
  next
    case (Request env targetId)
    then show ?thesis using Cons.prems by simp
  next
    case (Resume i)
    let ?c' = "server_step c (Resume i)"
    from polling_resume [OF Cons.prems(1) [unfolded Resume]] obtain env cdp' where
      i: "i < length (tasks c)" and tk: "tasks c ! i = TickCapture env cdp'"
      and p': "polling_only ?c' evs"
      and s: "settled c (Resume i # evs) = capture env cdp' # settled ?c' evs"
      by (elim exE conjE) (rule that)
    have u: "unsuccessful (capture env cdp')" using Cons.prems(3) [unfolded Resume s] by simp
    have lt: "snapshotFailCount (vars c) + 1 < MAX_SNAPSHOT_FAILS"
      using Cons.prems(4) [unfolded Resume s] by simp
    have v: "vars ?c' = (vars c)\<lparr>snapshotFailCount := snapshotFailCount (vars c) + 1\<rparr>"
      using resume_capture_vars [OF i tk] poll_settled_unsuccessful [OF u] lt by simp
    have c': "cdpConnection (vars ?c') = Some cdp" using v Cons.prems(2) by simp
    have ih: "vars (run_server evs ?c')
        = (vars ?c')\<lparr>snapshotFailCount := snapshotFailCount (vars ?c') + length (settled ?c' evs)\<rparr>
      \<and> teardowns ?c' evs = 0"
    proof (rule Cons.IH [OF p' c'])
      show "\<forall>r \<in> set (settled ?c' evs). unsuccessful r" using Cons.prems(3) [unfolded Resume s] by simp
      show "snapshotFailCount (vars ?c') + length (settled ?c' evs) < MAX_SNAPSHOT_FAILS"
        using Cons.prems(4) [unfolded Resume s] v by simp
    qed
    have td: "teardowns c (Resume i # evs) = teardowns ?c' evs"
      using c' by (simp del: server_step.simps)
    show ?thesis
      unfolding Resume s run_server_Cons td using ih v by simp
  qed
qed


lemma failures_reach_threshold:
  "polling_only c evs \<Longrightarrow> cdpConnection (vars c) = Some cdp \<Longrightarrow>
   \<forall>r \<in> set (settled c evs). unsuccessful r \<Longrightarrow>
   snapshotFailCount (vars c) < MAX_SNAPSHOT_FAILS \<Longrightarrow>
   snapshotFailCount (vars c) + length (settled c evs) = MAX_SNAPSHOT_FAILS \<Longrightarrow>
   vars (run_server evs c) = (vars c)\<lparr>cdpConnection := None, snapshotFailCount := 0\<rparr>
   \<and> teardowns c evs = 1"
proof (induction evs arbitrary: c)
  case Nil
  then show ?case by simp
next
  case (Cons e evs)
  show ?case
  proof (cases e)
    case (TickFires env)
    let ?c' = "server_step c (TickFires env)"
    have v: "vars ?c' = vars c" by (rule tick_fires_vars)
    have s: "settled c (e # evs) = settled ?c' evs"
      using TickFires by (simp del: server_step.simps)
    have p': "polling_only ?c' evs" using Cons.prems(1) TickFires by (simp del: server_step.simps)
    have c': "cdpConnection (vars ?c') = Some cdp" using Cons.prems(2) v by simp
    have u': "\<forall>r \<in> set (settled ?c' evs). unsuccessful r" using Cons.prems(3) s by simp
    have b': "snapshotFailCount (vars ?c') < MAX_SNAPSHOT_FAILS" using Cons.prems(4) v by simp
    have l': "snapshotFailCount (vars ?c') + length (settled ?c' evs) = MAX_SNAPSHOT_FAILS"
      using Cons.prems(5) s v by simp
    have ih: "vars (run_server evs ?c') = (vars ?c')\<lparr>cdpConnection := None, snapshotFailCount := 0\<rparr>
      \<and> teardowns ?c' evs = 1"
      by (rule Cons.IH [OF p' c' u' b' l'])
    have td: "teardowns c (TickFires env # evs) = teardowns ?c' evs"
      using c' by (simp del: server_step.simps)
    show ?thesis
      unfolding TickFires run_server_Cons td using ih v by simp
  next
    case (Request env targetId)
    then show ?thesis using Cons.prems by simp
  next
    case (Resume i)
    let ?c' = "server_step c (Resume i)"
    from polling_resume [OF Cons.prems(1) [unfolded Resume]] obtain env cdp' where
      i: "i < length (tasks c)" and tk: "tasks c ! i = TickCapture env cdp'"
      and p': "polling_only ?c' evs"
      and s: "settled c (Resume i # evs) = capture env cdp' # settled ?c' evs"
      by (elim exE conjE) (rule that)
    have u: "unsuccessful (capture env cdp')" using Cons.prems(3) [unfolded Resume s] by simp
    have u': "\<forall>r \<in> set (settled ?c' evs). unsuccessful r"
      using Cons.prems(3) [unfolded Resume s] by simp
    have len: "snapshotFailCount (vars c) + 1 + length (settled ?c' evs) = MAX_SNAPSHOT_FAILS"
      using Cons.prems(5) [unfolded Resume s] by simp
    show ?thesis
    proof (cases "snapshotFailCount (vars c) + 1 < MAX_SNAPSHOT_FAILS")
      case True
      have v: "vars ?c' = (vars c)\<lparr>snapshotFailCount := snapshotFailCount (vars c) + 1\<rparr>"
        using resume_capture_vars [OF i tk] poll_settled_unsuccessful [OF u] True by simp
      have c': "cdpConnection (vars ?c') = Some cdp" using v Cons.prems(2) by simp
      have b': "snapshotFailCount (vars ?c') < MAX_SNAPSHOT_FAILS" using v True by simp
      have l': "snapshotFailCount (vars ?c') + length (settled ?c' evs) = MAX_SNAPSHOT_FAILS"
        using v len by simp
      have ih: "vars (run_server evs ?c') = (vars ?c')\<lparr>cdpConnection := None, snapshotFailCount := 0\<rparr>
        \<and> teardowns ?c' evs = 1"
        by (rule Cons.IH [OF p' c' u' b' l'])
      have td: "teardowns c (Resume i # evs) = teardowns ?c' evs"
        using c' by (simp del: server_step.simps)
      show ?thesis
        unfolding Resume run_server_Cons td using ih v by simp
    next
      case False
      have v: "vars ?c' = (vars c)\<lparr>cdpConnection := None, snapshotFailCount := 0\<rparr>"
        using resume_capture_vars [OF i tk] poll_settled_unsuccessful [OF u] False by simp
      have "length (settled ?c' evs) = 0" using len False by arith
      then have e: "settled ?c' evs = []" by (simp del: server_step.simps)
      have q: "vars (run_server evs ?c') = vars ?c' \<and> teardowns ?c' evs = 0"
        by (rule quiet_schedule [OF p' e])
      have td: "teardowns c (Resume i # evs) = 1 + teardowns ?c' evs"
        using v Cons.prems(2) by (simp del: server_step.simps)
      show ?thesis
        unfolding Resume run_server_Cons td using q v by simp
    qed
  qed
qed

lemma interrupted_failures:
  "polling_only c evs \<Longrightarrow> cdpConnection (vars c) = Some cdp \<Longrightarrow>
   settled c evs = fs @ ok # gs \<Longrightarrow>
   \<forall>r \<in> set (fs @ gs). unsuccessful r \<Longrightarrow> successful ok \<Longrightarrow>
   snapshotFailCount (vars c) + length fs < MAX_SNAPSHOT_FAILS \<Longrightarrow>
   length gs < MAX_SNAPSHOT_FAILS \<Longrightarrow>
   teardowns c evs = 0
   \<and> cdpConnection (vars (run_server evs c)) = Some cdp
   \<and> snapshotFailCount (vars (run_server evs c)) = length gs"
proof (induction evs arbitrary: c fs)
  case Nil
  then show ?case by simp
next
  case (Cons e evs)
  show ?case
  proof (cases e)
    case (TickFires env)
    let ?c' = "server_step c (TickFires env)"
    have v: "vars ?c' = vars c" by (rule tick_fires_vars)
    have s: "settled c (e # evs) = settled ?c' evs"
      using TickFires by (simp del: server_step.simps)
    have p': "polling_only ?c' evs" using Cons.prems(1) TickFires by (simp del: server_step.simps)
    have c': "cdpConnection (vars ?c') = Some cdp" using Cons.prems(2) v by simp
    have s': "settled ?c' evs = fs @ ok # gs" using Cons.prems(3) s by simp
    have l': "snapshotFailCount (vars ?c') + length fs < MAX_SNAPSHOT_FAILS"
      using Cons.prems(6) v by simp
    have ih: "teardowns ?c' evs = 0
      \<and> cdpConnection (vars (run_server evs ?c')) = Some cdp
      \<and> snapshotFailCount (vars (run_server evs ?c')) = length gs"
      by (rule Cons.IH [OF p' c' s' Cons.prems(4) Cons.prems(5) l' Cons.prems(7)])
    have td: "teardowns c (TickFires env # evs) = teardowns ?c' evs"
      using c' by (simp del: server_step.simps)
    show ?thesis
      unfolding TickFires run_server_Cons td using ih by simp
  next
    case (Request env targetId)
    then show ?thesis using Cons.prems by simp
  next
    case (Resume i)
    let ?c' = "server_step c (Resume i)"
    from polling_resume [OF Cons.prems(1) [unfolded Resume]] obtain env cdp' where
      i: "i < length (tasks c)" and tk: "tasks c ! i = TickCapture env cdp'"
      and p': "polling_only ?c' evs"
      and s: "settled c (Resume i # evs) = capture env cdp' # settled ?c' evs"
      by (elim exE conjE) (rule that)
    have eq: "capture env cdp' # settled ?c' evs = fs @ ok # gs"
      using Cons.prems(3) [unfolded Resume s] .
    show ?thesis
    proof (cases fs)
      case Nil
      have ok: "capture env cdp' = ok" and rest: "settled ?c' evs = gs"
        using eq Nil by simp_all
      have succ: "successful (capture env cdp')" using ok Cons.prems(5) by simp
      have v0: "snapshotFailCount (vars ?c') = 0" and c': "cdpConnection (vars ?c') = Some cdp"
        using resume_capture_vars [OF i tk] poll_settled_successful [OF succ] Cons.prems(2)
        by simp_all
      have u': "\<forall>r \<in> set (settled ?c' evs). unsuccessful r"
        using Cons.prems(4) rest by simp
      have l': "snapshotFailCount (vars ?c') + length (settled ?c' evs) < MAX_SNAPSHOT_FAILS"
        using v0 rest Cons.prems(7) by simp
      have f: "vars (run_server evs ?c')
          = (vars ?c')\<lparr>snapshotFailCount := snapshotFailCount (vars ?c') + length (settled ?c' evs)\<rparr>
        \<and> teardowns ?c' evs = 0"
        by (rule failures_below_threshold [OF p' c' u' l'])
      have td: "teardowns c (Resume i # evs) = teardowns ?c' evs"
        using c' by (simp del: server_step.simps)
      show ?thesis
        unfolding Resume run_server_Cons td using f v0 c' rest by simp
    next
      case (Cons f fs')
      have fl: "capture env cdp' = f" and rest: "settled ?c' evs = fs' @ ok # gs"
        using eq Cons by simp_all
      have u: "unsuccessful (capture env cdp')" using fl Cons.prems(4) Cons by simp
      have lt: "snapshotFailCount (vars c) + 1 < MAX_SNAPSHOT_FAILS"
        using Cons.prems(6) Cons by simp
      have v: "vars ?c' = (vars c)\<lparr>snapshotFailCount := snapshotFailCount (vars c) + 1\<rparr>"
        using resume_capture_vars [OF i tk] poll_settled_unsuccessful [OF u] lt by simp
      have c': "cdpConnection (vars ?c') = Some cdp" using v Cons.prems(2) by simp
      have u': "\<forall>r \<in> set (fs' @ gs). unsuccessful r" using Cons.prems(4) Cons by simp
      have l': "snapshotFailCount (vars ?c') + length fs' < MAX_SNAPSHOT_FAILS"
        using v Cons.prems(6) Cons by simp
      have ih: "teardowns ?c' evs = 0
        \<and> cdpConnection (vars (run_server evs ?c')) = Some cdp
        \<and> snapshotFailCount (vars (run_server evs ?c')) = length gs"
        by (rule Cons.IH [OF p' c' rest u' Cons.prems(5) l' Cons.prems(7)])
      have td: "teardowns c (Resume i # evs) = teardowns ?c' evs"
        using c' by (simp del: server_step.simps)
      show ?thesis
        unfolding Resume run_server_Cons td using ih by simp
    qed
  qed
qed

text \<open>
  C2: with the threshold \<^verbatim>\<open>MAX_SNAPSHOT_FAILS\<close>, a capture that settles unsuccessfully (null,
  or an object with an error) increments the failure counter, and drops the session and
  resets the counter exactly when the incremented counter reaches the threshold; a capture
  that settles successfully resets the counter and keeps the session. A tick that fires
  only reads the variables; the code after its \<^verbatim>\<open>await\<close> runs when its capture settles, on
  the variables of that moment. For every schedule of ticks and captures, in whatever order
  the captures settle, from a session with counter 0: while fewer captures than the
  threshold have settled, all unsuccessfully, there is no teardown and the counter is
  their number; when as many as the threshold have, there is exactly one teardown and the
  counter is 0; and when the captures settle as one failure less than the threshold, a
  success, and again one failure less, there is no teardown. The sequence that counts is
  the order in which the captures settle, which need not be the order in which their
  ticks fired.
\<close>

theorem capture_failure_threshold_settle_order:
  "(unsuccessful r \<longrightarrow>
      snapshotFailCount (fst (poll_settled r cs t s))
        = (if snapshotFailCount s + 1 < MAX_SNAPSHOT_FAILS then snapshotFailCount s + 1 else 0)
      \<and> cdpConnection (fst (poll_settled r cs t s))
        = (if snapshotFailCount s + 1 < MAX_SNAPSHOT_FAILS then cdpConnection s else None))
   \<and> (successful r \<longrightarrow>
      snapshotFailCount (fst (poll_settled r cs t s)) = 0
      \<and> cdpConnection (fst (poll_settled r cs t s)) = cdpConnection s)
   \<and> (cdpConnection s = Some cdp \<longrightarrow>
      poll_tick env s = poll_settled (capture env cdp) (clients env) (now env) s)
   \<and> vars (server_step c (TickFires env)) = vars c
   \<and> (i < length (tasks c) \<longrightarrow> tasks c ! i = TickCapture env cdp \<longrightarrow>
      vars (server_step c (Resume i))
        = fst (poll_settled (capture env cdp) (clients env) (now env) (vars c)))
   \<and> (polling_only c evs \<longrightarrow> cdpConnection (vars c) = Some cdp \<longrightarrow>
      snapshotFailCount (vars c) = 0 \<longrightarrow> (\<forall>r \<in> set (settled c evs). unsuccessful r) \<longrightarrow>
      (length (settled c evs) < MAX_SNAPSHOT_FAILS \<longrightarrow>
         teardowns c evs = 0
         \<and> cdpConnection (vars (run_server evs c)) = Some cdp
         \<and> snapshotFailCount (vars (run_server evs c)) = length (settled c evs))
      \<and> (length (settled c evs) = MAX_SNAPSHOT_FAILS \<longrightarrow>
         teardowns c evs = 1
         \<and> cdpConnection (vars (run_server evs c)) = None
         \<and> snapshotFailCount (vars (run_server evs c)) = 0))
   \<and> (polling_only c evs \<longrightarrow> cdpConnection (vars c) = Some cdp \<longrightarrow>
      snapshotFailCount (vars c) = 0 \<longrightarrow> settled c evs = fs @ ok # gs \<longrightarrow>
      length fs = MAX_SNAPSHOT_FAILS - 1 \<longrightarrow> length gs = MAX_SNAPSHOT_FAILS - 1 \<longrightarrow>
      (\<forall>r \<in> set (fs @ gs). unsuccessful r) \<longrightarrow> successful ok \<longrightarrow>
      teardowns c evs = 0
      \<and> cdpConnection (vars (run_server evs c)) = Some cdp
      \<and> snapshotFailCount (vars (run_server evs c)) = MAX_SNAPSHOT_FAILS - 1)"
proof (intro conjI impI)
  assume u: "unsuccessful r"
  show "snapshotFailCount (fst (poll_settled r cs t s))
        = (if snapshotFailCount s + 1 < MAX_SNAPSHOT_FAILS then snapshotFailCount s + 1 else 0)"
    using poll_settled_unsuccessful [OF u, of cs t s] by simp
  show "cdpConnection (fst (poll_settled r cs t s))
        = (if snapshotFailCount s + 1 < MAX_SNAPSHOT_FAILS then cdpConnection s else None)"
    using poll_settled_unsuccessful [OF u, of cs t s] by simp
next
  assume u: "successful r"
  show "snapshotFailCount (fst (poll_settled r cs t s)) = 0"
    using poll_settled_successful [OF u, of cs t s] by simp
  show "cdpConnection (fst (poll_settled r cs t s)) = cdpConnection s"
    using poll_settled_successful [OF u, of cs t s] by simp
next
  assume "cdpConnection s = Some cdp"
  then show "poll_tick env s = poll_settled (capture env cdp) (clients env) (now env) s"
    by (rule poll_tick_settled)
next
  show "vars (server_step c (TickFires env)) = vars c" by (rule tick_fires_vars)
next
  assume "i < length (tasks c)" "tasks c ! i = TickCapture env cdp"
  then show "vars (server_step c (Resume i))
        = fst (poll_settled (capture env cdp) (clients env) (now env) (vars c))"
    by (rule resume_capture_vars)
next
  assume a: "polling_only c evs" "cdpConnection (vars c) = Some cdp"
    "snapshotFailCount (vars c) = 0" "\<forall>r \<in> set (settled c evs). unsuccessful r"
    "length (settled c evs) < MAX_SNAPSHOT_FAILS"
  have l: "snapshotFailCount (vars c) + length (settled c evs) < MAX_SNAPSHOT_FAILS"
    using a(3) a(5) by simp
  note f = failures_below_threshold [OF a(1) a(2) a(4) l]
  show "teardowns c evs = 0" using f by simp
  show "cdpConnection (vars (run_server evs c)) = Some cdp" using f a(2) by simp
  show "snapshotFailCount (vars (run_server evs c)) = length (settled c evs)"
    using f a(3) by simp
next
  assume a: "polling_only c evs" "cdpConnection (vars c) = Some cdp"
    "snapshotFailCount (vars c) = 0" "\<forall>r \<in> set (settled c evs). unsuccessful r"
    "length (settled c evs) = MAX_SNAPSHOT_FAILS"
  have b: "snapshotFailCount (vars c) < MAX_SNAPSHOT_FAILS"
    using a(3) by (simp add: MAX_SNAPSHOT_FAILS_def)
  have l: "snapshotFailCount (vars c) + length (settled c evs) = MAX_SNAPSHOT_FAILS"
    using a(3) a(5) by simp
  note f = failures_reach_threshold [OF a(1) a(2) a(4) b l]
  show "teardowns c evs = 1" using f by simp
  show "cdpConnection (vars (run_server evs c)) = None" using f by simp
  show "snapshotFailCount (vars (run_server evs c)) = 0" using f by simp
next
  assume a: "polling_only c evs" "cdpConnection (vars c) = Some cdp"
    "snapshotFailCount (vars c) = 0" "settled c evs = fs @ ok # gs"
    "length fs = MAX_SNAPSHOT_FAILS - 1" "length gs = MAX_SNAPSHOT_FAILS - 1"
    "\<forall>r \<in> set (fs @ gs). unsuccessful r" "successful ok"
  have l1: "snapshotFailCount (vars c) + length fs < MAX_SNAPSHOT_FAILS"
    using a(3) a(5) by (simp add: MAX_SNAPSHOT_FAILS_def)
  have l2: "length gs < MAX_SNAPSHOT_FAILS"
    using a(6) by (simp add: MAX_SNAPSHOT_FAILS_def)
  note f = interrupted_failures [OF a(1) a(2) a(4) a(7) a(8) l1 l2]
  show "teardowns c evs = 0" using f by simp
  show "cdpConnection (vars (run_server evs c)) = Some cdp" using f by simp
  show "snapshotFailCount (vars (run_server evs c)) = MAX_SNAPSHOT_FAILS - 1"
    using f a(6) by simp
qed

subsection \<open>The switch of the session, step by step\<close>






subsection \<open>The theorems at concrete inputs\<close>

lemma ex_connected_conn: "cdpConnection ex_connected = Some ex_cdp"
  by (simp add: ex_connected_def)

lemma ex_connected_count: "snapshotFailCount ex_connected = 0"
  by (simp add: ex_connected_def initial_state_def)

lemma ex_connected_hash: "lastSnapshotHash ex_connected = None"
  by (simp add: ex_connected_def initial_state_def)

theorem broadcast_iff_fingerprint_differs_witness:
  "[snd (poll_tick (ex_tick (Resolved (Snapshot ex_snap))) ex_connected),
    snd (poll_tick (ex_tick (Resolved (Snapshot ex_snap)))
      (fst (poll_tick (ex_tick (Resolved (Snapshot ex_snap))) ex_connected)))]
   = [[Broadcast \<lparr>msg_type = ''snapshot_update'', timestamp = ''2026-01-01T00:00:00.000Z''\<rparr> [1]], []]
   \<and> lastSnapshot (fst (poll_tick (ex_tick (Resolved (Snapshot ex_snap))) ex_connected)) = Some ex_snap
   \<and> snd (poll_tick (ex_tick (Resolved (Snapshot ex_snap)))
        (ex_connected\<lparr>lastSnapshotHash := Some ''2kh''\<rparr>)) = []"
proof -
  note t = broadcast_iff_fingerprint_differs [of ex_connected ex_cdp
      "ex_tick (Resolved (Snapshot ex_snap))" ex_snap "ex_tick (Resolved (Snapshot ex_snap))"]
  note u = broadcast_iff_fingerprint_differs [of "ex_connected\<lparr>lastSnapshotHash := Some ''2kh''\<rparr>"
      ex_cdp "ex_tick (Resolved (Snapshot ex_snap))" ex_snap "ex_tick (Resolved (Snapshot ex_snap))",
      THEN conjunct1, rule_format]
  have h: "capture (ex_tick (Resolved (Snapshot ex_snap))) ex_cdp = Resolved (Snapshot ex_snap)"
    by (simp add: ex_tick_def)
  have d: "Some (hashString (html ex_snap)) \<noteq> lastSnapshotHash ex_connected"
    by (simp add: ex_connected_hash)
  have hv: "hashString (html ex_snap) = ''2kh''"
    by (simp add: ex_snap_def hashString_def toString36_def digit36_def)
  have c2: "cdpConnection (ex_connected\<lparr>lastSnapshotHash := Some ''2kh''\<rparr>) = Some ex_cdp"
    by (simp add: ex_connected_def)
  have e: "Some (hashString (html ex_snap))
      = lastSnapshotHash (ex_connected\<lparr>lastSnapshotHash := Some ''2kh''\<rparr>)"
    using hv by simp
  have p1: "[snd (poll_tick (ex_tick (Resolved (Snapshot ex_snap))) ex_connected),
    snd (poll_tick (ex_tick (Resolved (Snapshot ex_snap)))
      (fst (poll_tick (ex_tick (Resolved (Snapshot ex_snap))) ex_connected)))]
   = [[Broadcast \<lparr>msg_type = ''snapshot_update'', timestamp = ''2026-01-01T00:00:00.000Z''\<rparr> [1]], []]"
    using t [THEN conjunct2, rule_format, OF ex_connected_conn h h]
    by (simp add: ex_connected_hash broadcast_update_def ex_tick_def)
  have p2: "lastSnapshot (fst (poll_tick (ex_tick (Resolved (Snapshot ex_snap))) ex_connected)) = Some ex_snap"
    using t [THEN conjunct1, rule_format, OF ex_connected_conn h, THEN conjunct1, rule_format, OF d]
    by simp
  have p3: "snd (poll_tick (ex_tick (Resolved (Snapshot ex_snap)))
        (ex_connected\<lparr>lastSnapshotHash := Some ''2kh''\<rparr>)) = []"
    using u [OF c2 h, THEN conjunct2, rule_format, OF e] by simp
  from p1 p2 p3 show ?thesis by simp
qed

theorem fingerprint_of_html_only_witness:
  "ex_snap_restyled \<noteq> ex_snap
   \<and> snd (poll_tick (ex_tick (Resolved (Snapshot ex_snap_restyled)))
        (fst (poll_tick (ex_tick (Resolved (Snapshot ex_snap))) ex_connected))) = []
   \<and> lastSnapshot (fst (poll_tick (ex_tick (Resolved (Snapshot ex_snap_restyled)))
        (fst (poll_tick (ex_tick (Resolved (Snapshot ex_snap))) ex_connected)))) = Some ex_snap"
proof -
  note t = fingerprint_of_html_only [of ex_connected ex_cdp
      "ex_tick (Resolved (Snapshot ex_snap))" ex_snap
      "ex_tick (Resolved (Snapshot ex_snap_restyled))" ex_snap_restyled, rule_format]
  have h1: "capture (ex_tick (Resolved (Snapshot ex_snap))) ex_cdp = Resolved (Snapshot ex_snap)"
    by (simp add: ex_tick_def)
  have h2: "capture (ex_tick (Resolved (Snapshot ex_snap_restyled))) ex_cdp
      = Resolved (Snapshot ex_snap_restyled)"
    by (simp add: ex_tick_def)
  have h3: "html ex_snap_restyled = html ex_snap"
    by (simp add: ex_snap_def ex_snap_restyled_def)
  have h4: "Some (hashString (html ex_snap)) \<noteq> lastSnapshotHash ex_connected"
    by (simp add: ex_connected_hash)
  have d: "ex_snap_restyled \<noteq> ex_snap"
    by (simp add: ex_snap_def ex_snap_restyled_def)
  from t [OF ex_connected_conn h1 h2 h3] h4 d show ?thesis by blast
qed

theorem status_well_formed_witness:
  "getCDPStatus initial_state = \<lparr>connected = False, contextCount = 0, retryCount = 0\<rparr>
   \<and> getCDPStatus ex_connected = \<lparr>connected = True, contextCount = 1, retryCount = 0\<rparr>
   \<and> getCDPStatus (fst (switch_found (ex_switch_env\<lparr>sw_connect := \<lambda>url. ex_no_target\<rparr>)
        ''B'' ex_two_targets))
       = \<lparr>connected = False, contextCount = 0, retryCount = 3\<rparr>
   \<and> switch_settled (ex_switch_env\<lparr>sw_connect := \<lambda>url. ex_no_target\<rparr>) ex_target_B
        (fst (switch_found (ex_switch_env\<lparr>sw_connect := \<lambda>url. ex_no_target\<rparr>) ''B'' ex_two_targets))
       = (fst (switch_found (ex_switch_env\<lparr>sw_connect := \<lambda>url. ex_no_target\<rparr>) ''B'' ex_two_targets),
          Finished, [], [ServerError (Some ''connect ECONNREFUSED 127.0.0.1'')])
   \<and> getCDPStatus (fst (poll_tick (ex_tick (Resolved NullSnapshot))
        (ex_connected\<lparr>snapshotFailCount := 4\<rparr>)))
       = \<lparr>connected = False, contextCount = 0, retryCount = 0\<rparr>"
proof -
  let ?env = "ex_switch_env\<lparr>sw_connect := \<lambda>url. ex_no_target\<rparr>"
  note t = status_well_formed [where s = initial_state and cdp = ex_cdp and env = ?env
      and targetId = "''B''" and target = ex_target_B and e = ex_refused
      and tenv = "ex_tick (Resolved NullSnapshot)"]
  note u = status_well_formed [where s = ex_connected and cdp = ex_cdp and env = ?env
      and targetId = "''B''" and target = ex_target_B and e = ex_refused
      and tenv = "ex_tick (Resolved NullSnapshot)"]
  note v = status_well_formed [where s = ex_two_targets and cdp = ex_cdp and env = ?env
      and targetId = "''B''" and target = ex_target_B and e = ex_refused
      and tenv = "ex_tick (Resolved NullSnapshot)",
      THEN conjunct2, THEN conjunct2, THEN conjunct1, rule_format]
  note w = status_well_formed [where s = "ex_connected\<lparr>snapshotFailCount := 4\<rparr>" and cdp = ex_cdp
      and env = ?env and targetId = "''B''" and target = ex_target_B and e = ex_refused
      and tenv = "ex_tick (Resolved NullSnapshot)",
      THEN conjunct2, THEN conjunct2, THEN conjunct2, rule_format]
  have a: "cdpConnection initial_state = None" by (simp add: initial_state_def)
  have b: "cdpRetryCount initial_state = 0" by (simp add: initial_state_def)
  have c: "cdpRetryCount ex_connected = 0" by (simp add: ex_connected_def initial_state_def)
  have d: "length (getContexts ex_cdp) = 1" by (simp add: ex_cdp_def)
  have f: "find (\<lambda>i. i_id i = ''B'') (discoveredInstances ex_two_targets) = Some ex_target_B"
    by (simp add: ex_two_targets_def ex_target_B_def)
  have rj: "connectCDP (sw_connect ?env (i_url ex_target_B)) (i_url ex_target_B) = Rejected ex_refused"
    by (simp add: connectCDP_def ex_no_target_def)
  have m: "message ex_refused = Some ''connect ECONNREFUSED 127.0.0.1''"
    by (simp add: ex_refused_def)
  have r3: "cdpRetryCount ex_two_targets = 3" by (simp add: ex_two_targets_def)
  note v1 = v [OF f, THEN conjunct1]
  note v2 = v [OF f, THEN conjunct2, rule_format, OF rj]
  have g: "poll_tick (ex_tick (Resolved NullSnapshot)) (ex_connected\<lparr>snapshotFailCount := 4\<rparr>)
      = (ex_connected\<lparr>cdpConnection := None, snapshotFailCount := 0\<rparr>, [])"
    by (simp add: poll_tick_def ex_tick_def ex_connected_def poll_try_def MAX_SNAPSHOT_FAILS_def)
  have n: "cdpConnection (fst (poll_tick (ex_tick (Resolved NullSnapshot))
        (ex_connected\<lparr>snapshotFailCount := 4\<rparr>))) = None"
    unfolding g by simp
  have rc: "retryCount (getCDPStatus (fst (poll_tick (ex_tick (Resolved NullSnapshot))
        (ex_connected\<lparr>snapshotFailCount := 4\<rparr>)))) = 0"
    unfolding g by (simp add: getCDPStatus_def ex_connected_def initial_state_def)
  have p5: "getCDPStatus (fst (poll_tick (ex_tick (Resolved NullSnapshot))
        (ex_connected\<lparr>snapshotFailCount := 4\<rparr>)))
       = \<lparr>connected = False, contextCount = 0, retryCount = 0\<rparr>"
    using w [OF n] rc
    by (cases "getCDPStatus (fst (poll_tick (ex_tick (Resolved NullSnapshot))
        (ex_connected\<lparr>snapshotFailCount := 4\<rparr>)))") simp
  have p1: "getCDPStatus initial_state = \<lparr>connected = False, contextCount = 0, retryCount = 0\<rparr>"
    using t a b by simp
  have p2: "getCDPStatus ex_connected = \<lparr>connected = True, contextCount = 1, retryCount = 0\<rparr>"
    using u c d ex_connected_conn by simp
  have p3: "getCDPStatus (fst (switch_found ?env ''B'' ex_two_targets))
       = \<lparr>connected = False, contextCount = 0, retryCount = 3\<rparr>"
    using v1 r3 by simp
  have p4: "switch_settled ?env ex_target_B (fst (switch_found ?env ''B'' ex_two_targets))
       = (fst (switch_found ?env ''B'' ex_two_targets),
          Finished, [], [ServerError (Some ''connect ECONNREFUSED 127.0.0.1'')])"
    using v2 m by simp
  from p1 p2 p3 p4 p5 show ?thesis by (intro conjI)
qed

theorem discoverAllTargets_dedup_witness:
  "map i_port (discoverAllTargets (\<lambda>i. 4 - i) ex_getJson) = [9001, 9002]
   \<and> distinct (map i_url (discoverAllTargets (\<lambda>i. 4 - i) ex_getJson))
   \<and> discoverAllTargets (\<lambda>i. 4 - i) ex_getJson = discoverAllTargets (\<lambda>i. i) ex_getJson"
proof -
  note t = discoverAllTargets_dedup [of "\<lambda>i. 4 - i" ex_getJson "\<lambda>i. i"]
  have "discoverAllTargets (\<lambda>i. 4 - i) ex_getJson =
     [\<lparr>i_id = ''A1'', i_port = 9001, i_url = ''ws://127.0.0.1:9001/devtools/page/A1'',
       i_title = ''proj - Antigravity'', i_pageUrl = ''x''\<rparr>,
      \<lparr>i_id = ''B1'', i_port = 9002, i_url = ''ws://127.0.0.1:9002/devtools/page/B1'',
       i_title = ''t'', i_pageUrl = ''vscode-file://a/workbench.html''\<rparr>]"
    by (simp add: discoverAllTargets_eq PORTS_def checkPortAll_def ex_getJson_def
        is_workbench_page_def to_instance_def add_target_def)
  then have "map i_port (discoverAllTargets (\<lambda>i. 4 - i) ex_getJson) = [9001, 9002]" by simp
  with t show ?thesis by blast
qed

lemma ex_two_calls_run:
  "run_transport ex_two_calls
     = \<lparr>idCounter = 3, handlers = [2], timers = [(2, ''Runtime.evaluate'')],
        sent = [(1, ''Runtime.enable''), (2, ''Runtime.evaluate'')],
        settle_log = [(1, Fulfilled ''{}'')]\<rparr>"
  by (simp add: ex_two_calls_def run_transport_def new_transport_def call_def on_frame_def)

theorem call_settles_once_witness:
  "idCounter (run_transport ex_two_calls) = 3
   \<and> fst (call ''Page.enable'' (run_transport ex_two_calls)) = 3
   \<and> pending (run_transport (ex_two_calls @ [Call ''Page.enable''])) 3
   \<and> map_of (timers (run_transport (ex_two_calls @ [Call ''Page.enable'']))) 3 = Some ''Page.enable''
   \<and> (3, ''Page.enable'') \<in> set (sent (run_transport (ex_two_calls @ [Call ''Page.enable''])))
   \<and> pending (run_transport (ex_two_calls @ [Call ''Page.enable''])) 2
   \<and> settlements (on_timeout 2 (run_transport ex_two_calls)) 2 = [TimedOut ''Runtime.evaluate'']
   \<and> \<not> pending (on_timeout 2 (run_transport ex_two_calls)) 2
   \<and> settlements (on_frame (CallResponse 2 (Inl \<lparr>err_code = - 32000, err_message = ''gone''\<rparr>))
        (run_transport ex_two_calls)) 2
       = [RpcFailed \<lparr>err_code = - 32000, err_message = ''gone''\<rparr>]
   \<and> map_of (timers (on_frame (CallResponse 2 (Inl \<lparr>err_code = - 32000, err_message = ''gone''\<rparr>))
        (run_transport ex_two_calls))) 2 = None
   \<and> on_frame (CallResponse 1 (Inr ''again'')) (run_transport ex_two_calls)
       = run_transport ex_two_calls
   \<and> on_timeout 1 (run_transport ex_two_calls) = run_transport ex_two_calls
   \<and> pending (on_timeout 1 (run_transport ex_two_calls)) 2
   \<and> on_frame ExecutionContextsCleared (run_transport ex_two_calls) = run_transport ex_two_calls
   \<and> settlements (run_transport (ex_two_calls
        @ [Frame (CallResponse 1 (Inr ''again'')), TimerElapsed 1, TimerElapsed 2])) 1
       = [Fulfilled ''{}'']"
proof -
  let ?err = "Inl \<lparr>err_code = - 32000, err_message = ''gone''\<rparr> :: rpc_error + string"
  note u = call_settles_once [where evs = ex_two_calls and i = 2 and r = ?err
      and meth = "''Page.enable''" and j = 1 and msg = ExecutionContextsCleared
      and x = "Fulfilled ''{}''" and evs' = "[]"]
  note v = call_settles_once [where evs = ex_two_calls and i = 1 and r = "Inr ''again''"
      and meth = "''Page.enable''" and j = 2 and msg = ExecutionContextsCleared
      and x = "Fulfilled ''{}''"
      and evs' = "[Frame (CallResponse 1 (Inr ''again'')), TimerElapsed 1, TimerElapsed 2]"]
  note tl5 = conjunct2 [OF conjunct2 [OF conjunct2 [OF conjunct2 [OF conjunct2]]]]
  have c3: "idCounter (run_transport ex_two_calls) = 3"
    using u [THEN tl5, THEN conjunct2, THEN conjunct1] by (simp add: ex_two_calls_def)
  have p2: "pending (run_transport ex_two_calls) 2"
    unfolding ex_two_calls_run by (simp add: pending_def)
  have np1: "\<not> pending (run_transport ex_two_calls) 1"
    unfolding ex_two_calls_run by (simp add: pending_def)
  have m2: "map_of (timers (run_transport ex_two_calls)) 2 = Some ''Runtime.evaluate''"
    unfolding ex_two_calls_run by simp
  have s1: "settlements (run_transport ex_two_calls) 1 = [Fulfilled ''{}'']"
    unfolding ex_two_calls_run by (simp add: settlements_def)
  have nr: "\<forall>k q. ExecutionContextsCleared \<noteq> CallResponse k q" by simp
  have a: "fst (call ''Page.enable'' (run_transport ex_two_calls)) = 3
     \<and> pending (run_transport (ex_two_calls @ [Call ''Page.enable''])) 3
     \<and> map_of (timers (run_transport (ex_two_calls @ [Call ''Page.enable'']))) 3 = Some ''Page.enable''
     \<and> (3, ''Page.enable'') \<in> set (sent (run_transport (ex_two_calls @ [Call ''Page.enable''])))
     \<and> pending (run_transport (ex_two_calls @ [Call ''Page.enable''])) 2"
  proof -
    note w = u [THEN tl5, unfolded c3]
    note w1 = w [THEN conjunct1]
    note w6 = w [THEN tl5, THEN conjunct1]
    note w7 = w [THEN tl5, THEN conjunct2, THEN conjunct1]
    note w8 = w [THEN tl5, THEN conjunct2, THEN conjunct2, THEN conjunct1]
    note w10 = w [THEN tl5, THEN conjunct2, THEN conjunct2, THEN conjunct2, THEN conjunct2,
        THEN conjunct1, THEN mp, OF p2]
    show ?thesis using w1 w6 w7 w8 w10 by (intro conjI)
  qed
  have b: "settlements (on_timeout 2 (run_transport ex_two_calls)) 2 = [TimedOut ''Runtime.evaluate'']
     \<and> \<not> pending (on_timeout 2 (run_transport ex_two_calls)) 2
     \<and> settlements (on_frame (CallResponse 2 ?err) (run_transport ex_two_calls)) 2
         = [RpcFailed \<lparr>err_code = - 32000, err_message = ''gone''\<rparr>]
     \<and> map_of (timers (on_frame (CallResponse 2 ?err) (run_transport ex_two_calls))) 2 = None"
    using u [THEN conjunct2, THEN conjunct2, THEN conjunct2, THEN conjunct1] p2 m2 by auto
  have c: "on_frame (CallResponse 1 (Inr ''again'')) (run_transport ex_two_calls)
         = run_transport ex_two_calls
     \<and> on_timeout 1 (run_transport ex_two_calls) = run_transport ex_two_calls"
    using v [THEN conjunct2, THEN conjunct2, THEN conjunct2, THEN conjunct2, THEN conjunct1] np1
    by simp
  have d: "pending (on_timeout 1 (run_transport ex_two_calls)) 2"
    using u [THEN tl5, THEN tl5, THEN tl5, THEN conjunct2, THEN conjunct1] p2 by simp
  have e: "on_frame ExecutionContextsCleared (run_transport ex_two_calls) = run_transport ex_two_calls"
    using u [THEN tl5, THEN tl5, THEN tl5, THEN conjunct2, THEN conjunct2, THEN conjunct1] nr
    by simp
  have f: "settlements (run_transport (ex_two_calls
        @ [Frame (CallResponse 1 (Inr ''again'')), TimerElapsed 1, TimerElapsed 2])) 1
       = [Fulfilled ''{}'']"
    using v [THEN tl5, THEN tl5, THEN tl5, THEN conjunct2, THEN conjunct2, THEN conjunct2] s1
    by simp
  from c3 a b c d e f show ?thesis by simp
qed

lemmas ex_sched_defs = ex_overlap_def ex_in_tick_order_def ex_late_capture_def
  ex_five_errors_def ex_null_tick_def ex_good_tick_def idle_def ex_connected_def
  initial_state_def ex_tick_def run_server_def poll_settled_def poll_try_def poll_catch_def
  MAX_SNAPSHOT_FAILS_def Let_def eval_nat_numeral

text \<open>
  The ticks of \<open>ex_overlap\<close> fire in the order four failures, a success, four failures,
  on a session with counter 0. The capture of the fourth tick settles after that of the
  fifth, so five failures settle in a row and the last of them tears the session down.
  In \<open>ex_late_capture\<close> the capture of a tenth tick, called on the session before the
  teardown, settles after it and counts a failure while there is no session.
\<close>

theorem capture_failure_threshold_counterexample:
  "fired ex_cdp ex_overlap
     = [Resolved NullSnapshot, Resolved NullSnapshot, Resolved NullSnapshot, Resolved NullSnapshot,
        Resolved (Snapshot ex_snap),
        Resolved NullSnapshot, Resolved NullSnapshot, Resolved NullSnapshot, Resolved NullSnapshot]
   \<and> settled (idle ex_connected) ex_overlap
     = [Resolved NullSnapshot, Resolved NullSnapshot, Resolved NullSnapshot,
        Resolved (Snapshot ex_snap), Resolved NullSnapshot,
        Resolved NullSnapshot, Resolved NullSnapshot, Resolved NullSnapshot, Resolved NullSnapshot]
   \<and> polling_only (idle ex_connected) ex_overlap
   \<and> cdpConnection (vars (idle ex_connected)) = Some ex_cdp
   \<and> snapshotFailCount (vars (idle ex_connected)) = 0
   \<and> teardowns (idle ex_connected) ex_overlap = 1
   \<and> cdpConnection (vars (run_server ex_overlap (idle ex_connected))) = None
   \<and> polling_only (idle ex_connected) ex_late_capture
   \<and> cdpConnection (vars (run_server ex_late_capture (idle ex_connected))) = None
   \<and> snapshotFailCount (vars (run_server ex_late_capture (idle ex_connected))) = 1"
  by (simp add: ex_sched_defs)

theorem capture_failure_threshold_settle_order_witness:
  "snapshotFailCount (fst (poll_settled (Resolved NullSnapshot) [] [] ex_connected)) = 1
   \<and> cdpConnection (fst (poll_settled (Resolved NullSnapshot) [] []
        (ex_connected\<lparr>snapshotFailCount := 4\<rparr>))) = None
   \<and> snapshotFailCount (fst (poll_settled (Resolved (Snapshot ex_snap)) [] []
        (ex_connected\<lparr>snapshotFailCount := 4\<rparr>))) = 0
   \<and> poll_tick (ex_tick (Resolved NullSnapshot)) ex_connected
       = poll_settled (Resolved NullSnapshot) (clients (ex_tick (Resolved NullSnapshot)))
           (now (ex_tick (Resolved NullSnapshot))) ex_connected
   \<and> snapshotFailCount (vars (run_server [TickFires (ex_tick (Resolved NullSnapshot)), Resume 0]
        (idle ex_connected))) = 1
   \<and> teardowns (idle ex_connected) (butlast ex_five_errors) = 0
   \<and> snapshotFailCount (vars (run_server (butlast ex_five_errors) (idle ex_connected))) = 4
   \<and> teardowns (idle ex_connected) ex_five_errors = 1
   \<and> cdpConnection (vars (run_server ex_five_errors (idle ex_connected))) = None
   \<and> snapshotFailCount (vars (run_server ex_five_errors (idle ex_connected))) = 0
   \<and> fired ex_cdp ex_in_tick_order = settled (idle ex_connected) ex_in_tick_order
   \<and> teardowns (idle ex_connected) ex_in_tick_order = 0
   \<and> cdpConnection (vars (run_server ex_in_tick_order (idle ex_connected))) = Some ex_cdp
   \<and> snapshotFailCount (vars (run_server ex_in_tick_order (idle ex_connected))) = 4"
proof -
  let ?null = "Resolved NullSnapshot :: capture_result outcome"
  let ?err = "Resolved (ErrorSnapshot ''x'') :: capture_result outcome"
  let ?snap = "Resolved (Snapshot ex_snap)"
  let ?c1 = "server_step (idle ex_connected) (TickFires (ex_tick ?null))"
  note t1 = capture_failure_threshold_settle_order
    [where r = ?null and cs = "[]" and t = "[]" and s = ex_connected and cdp = ex_cdp
       and env = "ex_tick ?null" and c = ?c1 and i = 0 and evs = "butlast ex_five_errors"
       and fs = "[]" and gs = "[]" and ok = ?snap]
  note t2 = capture_failure_threshold_settle_order
    [where r = ?null and cs = "[]" and t = "[]" and s = "ex_connected\<lparr>snapshotFailCount := 4\<rparr>"
       and cdp = ex_cdp and env = "ex_tick ?null" and c = "idle ex_connected" and i = 0
       and evs = "butlast ex_five_errors" and fs = "[]" and gs = "[]" and ok = ?snap]
  note t3 = capture_failure_threshold_settle_order
    [where r = ?snap and cs = "[]" and t = "[]" and s = "ex_connected\<lparr>snapshotFailCount := 4\<rparr>"
       and cdp = ex_cdp and env = "ex_tick ?null" and c = "idle ex_connected" and i = 0
       and evs = ex_five_errors and fs = "[]" and gs = "[]" and ok = ?snap]
  note t4 = capture_failure_threshold_settle_order
    [where r = ?snap and cs = "[]" and t = "[]" and s = ex_connected
       and cdp = ex_cdp and env = "ex_tick ?null" and c = "idle ex_connected" and i = 0
       and evs = ex_in_tick_order and fs = "[?null, ?null, ?null, ?null]"
       and gs = "[?null, ?null, ?null, ?null]" and ok = ?snap]
  have un: "unsuccessful ?null" by simp
  have su: "successful ?snap" by simp
  have a1: "snapshotFailCount (fst (poll_settled ?null [] [] ex_connected)) = 1"
    using t1 [THEN conjunct1] un by (simp add: ex_connected_count MAX_SNAPSHOT_FAILS_def)
  have a2: "cdpConnection (fst (poll_settled ?null [] [] (ex_connected\<lparr>snapshotFailCount := 4\<rparr>))) = None"
    using t2 [THEN conjunct1] un by (simp add: MAX_SNAPSHOT_FAILS_def)
  have a3: "snapshotFailCount (fst (poll_settled ?snap [] [] (ex_connected\<lparr>snapshotFailCount := 4\<rparr>))) = 0"
    using t3 [THEN conjunct2, THEN conjunct1] su by simp
  have a4: "poll_tick (ex_tick ?null) ex_connected
       = poll_settled ?null (clients (ex_tick ?null)) (now (ex_tick ?null)) ex_connected"
    using t1 [THEN conjunct2, THEN conjunct2, THEN conjunct1] ex_connected_conn
    by (simp add: ex_tick_def)
  have v1: "vars ?c1 = ex_connected" by (simp add: idle_def)
  have k1: "0 < length (tasks ?c1)" "tasks ?c1 ! 0 = TickCapture (ex_tick ?null) ex_cdp"
    by (simp_all add: idle_def ex_connected_def)
  have a5: "snapshotFailCount (vars (run_server [TickFires (ex_tick ?null), Resume 0]
        (idle ex_connected))) = 1"
  proof -
    have "vars (server_step ?c1 (Resume 0))
        = fst (poll_settled (capture (ex_tick ?null) ex_cdp) (clients (ex_tick ?null))
            (now (ex_tick ?null)) (vars ?c1))"
      using t1 [THEN conjunct2, THEN conjunct2, THEN conjunct2, THEN conjunct2, THEN conjunct1] k1
      by blast
    moreover have "run_server [TickFires (ex_tick ?null), Resume 0] (idle ex_connected)
        = server_step ?c1 (Resume 0)"
      by (simp add: run_server_def)
    ultimately show ?thesis
      unfolding v1 using a4 [symmetric] poll_tick_fail_below [OF ex_connected_conn, of "ex_tick ?null"]
      by (simp add: ex_tick_def ex_connected_count MAX_SNAPSHOT_FAILS_def)
  qed
  note six = conjunct2 [OF conjunct2 [OF conjunct2 [OF conjunct2 [OF conjunct2]]]]
  have ic: "cdpConnection (vars (idle ex_connected)) = Some ex_cdp"
    by (simp add: idle_def ex_connected_def)
  have i0: "snapshotFailCount (vars (idle ex_connected)) = 0"
    by (simp add: idle_def ex_connected_def initial_state_def)
  have p4: "polling_only (idle ex_connected) (butlast ex_five_errors)"
    by (simp add: ex_sched_defs)
  have s4: "settled (idle ex_connected) (butlast ex_five_errors) = [?err, ?err, ?err, ?err]"
    by (simp add: ex_sched_defs)
  have p5: "polling_only (idle ex_connected) ex_five_errors"
    by (simp add: ex_sched_defs)
  have s5: "settled (idle ex_connected) ex_five_errors = [?err, ?err, ?err, ?err, ?err]"
    by (simp add: ex_sched_defs)
  have p9: "polling_only (idle ex_connected) ex_in_tick_order"
    by (simp add: ex_sched_defs)
  have s9: "settled (idle ex_connected) ex_in_tick_order
      = [?null, ?null, ?null, ?null] @ ?snap # [?null, ?null, ?null, ?null]"
    by (simp add: ex_sched_defs)
  have f9: "fired ex_cdp ex_in_tick_order = settled (idle ex_connected) ex_in_tick_order"
    unfolding s9 by (simp add: ex_in_tick_order_def ex_null_tick_def ex_good_tick_def ex_tick_def)
  have b4: "teardowns (idle ex_connected) (butlast ex_five_errors) = 0
      \<and> cdpConnection (vars (run_server (butlast ex_five_errors) (idle ex_connected))) = Some ex_cdp
      \<and> snapshotFailCount (vars (run_server (butlast ex_five_errors) (idle ex_connected)))
          = length (settled (idle ex_connected) (butlast ex_five_errors))"
    using t2 [THEN six, THEN conjunct1] p4 ic i0
    unfolding s4 by (simp add: MAX_SNAPSHOT_FAILS_def)
  have b5: "teardowns (idle ex_connected) ex_five_errors = 1
      \<and> cdpConnection (vars (run_server ex_five_errors (idle ex_connected))) = None
      \<and> snapshotFailCount (vars (run_server ex_five_errors (idle ex_connected))) = 0"
    using t3 [THEN six, THEN conjunct1] p5 ic i0
    unfolding s5 by (simp add: MAX_SNAPSHOT_FAILS_def)
  have b9: "teardowns (idle ex_connected) ex_in_tick_order = 0
      \<and> cdpConnection (vars (run_server ex_in_tick_order (idle ex_connected))) = Some ex_cdp
      \<and> snapshotFailCount (vars (run_server ex_in_tick_order (idle ex_connected)))
          = MAX_SNAPSHOT_FAILS - 1"
    using t4 [THEN six, THEN conjunct2] p9 ic i0 s9 su
    by (simp add: MAX_SNAPSHOT_FAILS_def)
  show ?thesis
    using a1 a2 a3 a4 a5 b4 b5 b9 f9 unfolding s4 by (simp add: MAX_SNAPSHOT_FAILS_def)
qed




end
